theory Spec2Isabelle
  imports Complex_Main
begin

section \<open>Vectors\<close>

text \<open>
  A \<^verbatim>\<open>p5.Vector\<close> has three numeric fields. JavaScript numbers are idealised as
  real numbers, with no rounding and no overflow, everywhere but in \<^verbatim>\<open>normalize\<close>: what
  is said of \<^verbatim>\<open>normalize\<close> is the exact value of a coordinate, so there every
  arithmetic operation is followed by a rounding function. Where the source can produce
  a value that is not a finite number (a division by zero), the model says so explicitly.
  Vector objects are treated as values: two entries of an array never share one object.
\<close>

datatype vec = Vec (vx: real) (vy: real) (vz: real)

text \<open>
  Modelled from the spec: the class \<^verbatim>\<open>p5.Vector\<close> (copy, sub, add, mult, dot, cross,
  magSq, mag, normalize, lerp, array) is used by the geometry code but its file is not
  among the sources. The operations below are the usual vector operations the spec names
  (difference, dot product, cross product, magnitude); \<open>vnormalize\<close> follows the spec's
  "leave zero vectors unnormalized rather than dividing by zero".
\<close>

definition vzero :: vec where
  "vzero = Vec 0 0 0"

fun vsub :: "vec \<Rightarrow> vec \<Rightarrow> vec" where
  "vsub (Vec a b c) (Vec d e f) = Vec (a - d) (b - e) (c - f)"

fun vadd :: "vec \<Rightarrow> vec \<Rightarrow> vec" where
  "vadd (Vec a b c) (Vec d e f) = Vec (a + d) (b + e) (c + f)"

fun vmult :: "vec \<Rightarrow> real \<Rightarrow> vec" where
  "vmult (Vec a b c) k = Vec (a * k) (b * k) (c * k)"

fun vdot :: "vec \<Rightarrow> vec \<Rightarrow> real" where
  "vdot (Vec a b c) (Vec d e f) = a * d + b * e + c * f"

fun vcross :: "vec \<Rightarrow> vec \<Rightarrow> vec" where
  "vcross (Vec a b c) (Vec d e f) = Vec (b * f - c * e) (c * d - a * f) (a * e - b * d)"

fun magSq :: "vec \<Rightarrow> real" where
  "magSq (Vec a b c) = a * a + b * b + c * c"

definition mag :: "vec \<Rightarrow> real" where
  "mag v = sqrt (magSq v)"

definition vnormalize :: "vec \<Rightarrow> vec" where
  "vnormalize v = (let len = mag v in if len \<noteq> 0 then vmult v (1 / len) else v)"

fun varray :: "vec \<Rightarrow> real list" where
  "varray (Vec a b c) = [a, b, c]"

section \<open>The geometry buffer\<close>

text \<open>
  The class \<^verbatim>\<open>p5.Geometry\<close>. A face is an array of three vertex indices and an edge
  an array of two; the flat stroke buffers (\<^verbatim>\<open>p5.DataArray\<close>) are lists of numbers.
\<close>

type_synonym face = "nat \<times> nat \<times> nat"

type_synonym edge = "nat \<times> nat"

record geometry =
  vertices :: "vec list"
  lineVertices :: "real list"
  lineTangentsIn :: "real list"
  lineTangentsOut :: "real list"
  lineSides :: "int list"
  vertexNormals :: "vec list"
  faces :: "face list"
  uvs :: "(real \<times> real) list"
  edges :: "edge list"
  vertexColors :: "real list"
  vertexStrokeColors :: "real list"
  lineVertexColors :: "real list"
  detailX :: nat
  detailY :: nat
  dirtyFlags :: "string list"

subsection \<open>reset\<close>

definition reset :: "geometry \<Rightarrow> geometry" where
  "reset g = g\<lparr>lineVertices := [], lineTangentsIn := [], lineTangentsOut := [],
     lineSides := [], vertices := [], edges := [], vertexColors := [],
     vertexStrokeColors := [], lineVertexColors := [], vertexNormals := [], uvs := [],
     dirtyFlags := []\<rparr>"

subsection \<open>computeFaces\<close>

text \<open>The two nested counting loops of \<^verbatim>\<open>computeFaces\<close>, inner loop first.\<close>

function computeFaces_j :: "nat \<Rightarrow> nat \<Rightarrow> nat \<Rightarrow> nat \<Rightarrow> face list \<Rightarrow> face list" where
  "computeFaces_j dX sliceCount i j fs =
     (if j < dX then
        (let a = i * sliceCount + j;
             b = i * sliceCount + j + 1;
             c = (i + 1) * sliceCount + j + 1;
             d = (i + 1) * sliceCount + j
         in computeFaces_j dX sliceCount i (j + 1) (fs @ [(a, b, d)] @ [(d, b, c)]))
      else fs)"
  by pat_completeness auto
termination
  by (relation "measure (\<lambda>(dX, sliceCount, i, j, fs). dX - j)") auto

function computeFaces_i :: "nat \<Rightarrow> nat \<Rightarrow> nat \<Rightarrow> nat \<Rightarrow> face list \<Rightarrow> face list" where
  "computeFaces_i dX dY sliceCount i fs =
     (if i < dY then
        computeFaces_i dX dY sliceCount (i + 1) (computeFaces_j dX sliceCount i 0 fs)
      else fs)"
  by pat_completeness auto
termination
  by (relation "measure (\<lambda>(dX, dY, sliceCount, i, fs). dY - i)") auto

definition computeFaces :: "geometry \<Rightarrow> geometry" where
  "computeFaces g =
     g\<lparr>faces := computeFaces_i (detailX g) (detailY g) (detailX g + 1) 0 []\<rparr>"

text \<open>The two triangles of grid cell \<open>(i, j)\<close> as the spec writes them.\<close>

definition cellFaces :: "nat \<Rightarrow> nat \<Rightarrow> nat \<Rightarrow> face list" where
  "cellFaces stride i j =
     (let a = i * stride + j; b = a + 1; c = (i + 1) * stride + j + 1; d = (i + 1) * stride + j
      in [(a, b, d), (d, b, c)])"

subsection \<open>Errors and the console\<close>

text \<open>
  What the source throws is a value of the model: \<open>TypeError\<close> stands for a property
  read on \<^verbatim>\<open>undefined\<close> (an index outside an array) and \<open>Error\<close> carries the message
  of a \<^verbatim>\<open>throw new Error(...)\<close>. Lines written with \<^verbatim>\<open>console.warn\<close> are collected
  in a list.
\<close>

datatype error = TypeError | Error string

definition vertexAt :: "geometry \<Rightarrow> nat \<Rightarrow> error + vec" where
  "vertexAt g k = (if k < length (vertices g) then Inr (vertices g ! k) else Inl TypeError)"

subsection \<open>computeNormals\<close>

definition faceWarning :: string where
  "faceWarning =
     ''p5.Geometry.prototype._getFaceNormal: face has colinear sides or a repeated vertex''"

text \<open>
  \<^verbatim>\<open>_getFaceNormal\<close>. The quotient \<open>ln / (|ab| |ac|)\<close> is NaN in the source
  exactly when the denominator is zero (then \<open>ln\<close> is zero too), so the test
  \<^verbatim>\<open>isNaN(sinAlpha)\<close> is the test \<open>den = 0\<close>. The result carries the warnings
  written to the console.
\<close>

definition getFaceNormal :: "geometry \<Rightarrow> nat \<Rightarrow> error + (string list \<times> vec)" where
  "getFaceNormal g faceId =
     (case faces g ! faceId of (f0, f1, f2) \<Rightarrow>
      (case vertexAt g f0 of Inl e \<Rightarrow> Inl e | Inr vA \<Rightarrow>
      (case vertexAt g f1 of Inl e \<Rightarrow> Inl e | Inr vB \<Rightarrow>
      (case vertexAt g f2 of Inl e \<Rightarrow> Inl e | Inr vC \<Rightarrow>
        (let ab = vsub vB vA;
             ac = vsub vC vA;
             n = vcross ab ac;
             ln = mag n;
             den = mag ab * mag ac;
             sinAlpha = ln / den
         in if sinAlpha = 0 \<or> den = 0 then Inr ([faceWarning], n)
            else (let sinAlpha' = (if sinAlpha > 1 then 1 else sinAlpha)
                  in Inr ([], vmult n (arcsin sinAlpha' / ln))))))))"

text \<open>\<^verbatim>\<open>vertexNormals[vertexIndex].add(faceNormal)\<close>: fails on a missing accumulator.\<close>

definition addNormalAt :: "vec list \<Rightarrow> nat \<Rightarrow> vec \<Rightarrow> error + vec list" where
  "addNormalAt ns k n =
     (if k < length ns then Inr (ns[k := vadd (ns ! k) n]) else Inl TypeError)"

text \<open>The body of the \<^verbatim>\<open>faces.forEach\<close> callback for face number \<open>f\<close>.\<close>

definition faceStep ::
  "geometry \<Rightarrow> nat \<Rightarrow> string list \<times> vec list \<Rightarrow> error + (string list \<times> vec list)" where
  "faceStep g f acc =
     (case acc of (warns, ns) \<Rightarrow>
      (case faces g ! f of (f0, f1, f2) \<Rightarrow>
       (case getFaceNormal g f of Inl e \<Rightarrow> Inl e | Inr (w, faceNormal) \<Rightarrow>
        (case addNormalAt ns f0 faceNormal of Inl e \<Rightarrow> Inl e | Inr ns0 \<Rightarrow>
         (case addNormalAt ns0 f1 faceNormal of Inl e \<Rightarrow> Inl e | Inr ns1 \<Rightarrow>
          (case addNormalAt ns1 f2 faceNormal of Inl e \<Rightarrow> Inl e | Inr ns2 \<Rightarrow>
             Inr (warns @ w, ns2)))))))"

function facesLoop ::
  "geometry \<Rightarrow> nat \<Rightarrow> string list \<times> vec list \<Rightarrow> error + (string list \<times> vec list)" where
  "facesLoop g f acc =
     (if f < length (faces g) then
        (case faceStep g f acc of Inl e \<Rightarrow> Inl e | Inr acc' \<Rightarrow> facesLoop g (f + 1) acc')
      else Inr acc)"
  by pat_completeness auto
termination
  by (relation "measure (\<lambda>(g, f, acc). length (faces g) - f)") auto

text \<open>
  \<^verbatim>\<open>computeNormals\<close>: fresh zero accumulators, one per vertex; the face loop; then
  every accumulator normalized. The result is the console output and the geometry.
\<close>

definition accumulateNormals :: "geometry \<Rightarrow> error + (string list \<times> vec list)" where
  "accumulateNormals g = facesLoop g 0 ([], replicate (length (vertices g)) (Vec 0 0 0))"

definition computeNormals :: "geometry \<Rightarrow> error + (string list \<times> geometry)" where
  "computeNormals g =
     (case accumulateNormals g of
        Inl e \<Rightarrow> Inl e
      | Inr (warns, ns) \<Rightarrow> Inr (warns, g\<lparr>vertexNormals := map vnormalize ns\<rparr>))"

text \<open>
  The inputs the specification of \<^verbatim>\<open>computeNormals\<close> speaks of: every index of every face
  points into \<^verbatim>\<open>vertices\<close>; a face is degenerate when two of its corners are the same
  point or when its sides from the first corner are colinear.
\<close>

definition facesInRange :: "geometry \<Rightarrow> bool" where
  "facesInRange g =
     (\<forall>(a, b, c) \<in> set (faces g).
        a < length (vertices g) \<and> b < length (vertices g) \<and> c < length (vertices g))"

definition repeatedVertex :: "vec \<Rightarrow> vec \<Rightarrow> vec \<Rightarrow> bool" where
  "repeatedVertex vA vB vC = (vA = vB \<or> vA = vC \<or> vB = vC)"

definition colinearSides :: "vec \<Rightarrow> vec \<Rightarrow> vec \<Rightarrow> bool" where
  "colinearSides vA vB vC =
     ((\<exists>k. vsub vC vA = vmult (vsub vB vA) k) \<or> (\<exists>k. vsub vB vA = vmult (vsub vC vA) k))"

text \<open>
  What the accumulators must hold after the face loop, as a specification: the
  accumulator of vertex \<open>k\<close> is the sum, over the faces in order, of the face's
  contribution taken once for every corner of the face that is \<open>k\<close>; the console
  holds the warnings of the faces in order. \<open>faceVec\<close> and \<open>faceWarns\<close> are the two
  parts of the result of \<^verbatim>\<open>_getFaceNormal\<close>.
\<close>

definition faceVec :: "geometry \<Rightarrow> nat \<Rightarrow> vec" where
  "faceVec g f = (case getFaceNormal g f of Inl e \<Rightarrow> Vec 0 0 0 | Inr (w, n) \<Rightarrow> n)"

definition faceWarns :: "geometry \<Rightarrow> nat \<Rightarrow> string list" where
  "faceWarns g f = (case getFaceNormal g f of Inl e \<Rightarrow> [] | Inr (w, n) \<Rightarrow> w)"

fun hits :: "nat \<Rightarrow> face \<Rightarrow> nat" where
  "hits k (a, b, c) =
     (if a = k then 1 else 0) + (if b = k then 1 else 0) + (if c = k then 1 else 0)"

fun vsum :: "vec list \<Rightarrow> vec" where
  "vsum [] = Vec 0 0 0"
| "vsum (v # vs) = vadd v (vsum vs)"

definition accSpec :: "geometry \<Rightarrow> nat \<Rightarrow> vec" where
  "accSpec g k =
     vsum (map (\<lambda>f. vmult (faceVec g f) (real (hits k (faces g ! f))))
             [0..<length (faces g)])"

subsection \<open>normalize\<close>

text \<open>
  The numbers of the source are double-precision floats: the result of every addition,
  subtraction, multiplication and division is rounded. The rounding is a parameter
  \<open>fl\<close> of the model, applied after each arithmetic operation of \<^verbatim>\<open>normalize\<close> and
  of the vector methods it calls. \<open>rounding u fl\<close> is what is assumed of it: it
  is monotone and its relative error is at most \<open>u\<close>. Rounding to nearest in double
  precision is such a function with \<open>u\<close> equal to \<^verbatim>\<open>2^-53\<close>, as long as no result overflows
  or underflows; the identity is one with \<open>u = 0\<close> (exact arithmetic). A vector is
  representable when rounding leaves its coordinates as they are, as is every number
  the program holds.
\<close>

definition rounding :: "real \<Rightarrow> (real \<Rightarrow> real) \<Rightarrow> bool" where
  "rounding u fl =
     (0 \<le> u \<and> (\<forall>x y. x \<le> y \<longrightarrow> fl x \<le> fl y) \<and> (\<forall>x. \<bar>fl x - x\<bar> \<le> u * \<bar>x\<bar>))"

definition representable :: "(real \<Rightarrow> real) \<Rightarrow> vec \<Rightarrow> bool" where
  "representable fl v = (fl (vx v) = vx v \<and> fl (vy v) = vy v \<and> fl (vz v) = vz v)"

text \<open>
  The quotient \<^verbatim>\<open>200 / longestDist\<close>: a positive number divided by zero is Infinity,
  and nothing is thrown.
\<close>

datatype quotient = Finite real | Infinity

definition divR :: "(real \<Rightarrow> real) \<Rightarrow> real \<Rightarrow> real \<Rightarrow> quotient" where
  "divR fl x y = (if y = 0 then Infinity else Finite (fl (x / y)))"

text \<open>
  Modelled from the spec: the methods of \<^verbatim>\<open>p5.Vector\<close> that \<^verbatim>\<open>normalize\<close> calls, with
  their rounding. \<^verbatim>\<open>sub\<close> subtracts coordinate by coordinate; \<^verbatim>\<open>lerp\<close> moves each
  coordinate of the first vector towards the second, \<^verbatim>\<open>x += (v.x - x) * amt\<close>;
  \<^verbatim>\<open>mult\<close> multiplies each coordinate by the factor, and leaves the vector as it is
  (writing a warning) when the factor is not a finite number.
\<close>

fun vsubR :: "(real \<Rightarrow> real) \<Rightarrow> vec \<Rightarrow> vec \<Rightarrow> vec" where
  "vsubR fl (Vec a b c) (Vec d e f) = Vec (fl (a - d)) (fl (b - e)) (fl (c - f))"

definition lerpR :: "(real \<Rightarrow> real) \<Rightarrow> real \<Rightarrow> real \<Rightarrow> real \<Rightarrow> real" where
  "lerpR fl x y amt = fl (x + fl (fl (y - x) * amt))"

fun vlerpR :: "(real \<Rightarrow> real) \<Rightarrow> vec \<Rightarrow> vec \<Rightarrow> real \<Rightarrow> vec" where
  "vlerpR fl (Vec a b c) (Vec d e f) amt =
     Vec (lerpR fl a d amt) (lerpR fl b e amt) (lerpR fl c f amt)"

fun vmultR :: "(real \<Rightarrow> real) \<Rightarrow> vec \<Rightarrow> quotient \<Rightarrow> vec" where
  "vmultR fl (Vec a b c) (Finite k) = Vec (fl (a * k)) (fl (b * k)) (fl (c * k))"
| "vmultR fl v Infinity = v"

text \<open>
  The loop that widens the two corners of the bounding box by every vertex.
  \<^verbatim>\<open>Math.max\<close> and \<^verbatim>\<open>Math.min\<close> return one of their arguments: nothing is rounded.
\<close>

fun boundsLoop :: "vec list \<Rightarrow> vec \<times> vec \<Rightarrow> vec \<times> vec" where
  "boundsLoop [] (maxPosition, minPosition) = (maxPosition, minPosition)"
| "boundsLoop (v # vs) (maxPosition, minPosition) =
     boundsLoop vs
       (Vec (max (vx maxPosition) (vx v)) (max (vy maxPosition) (vy v))
            (max (vz maxPosition) (vz v)),
        Vec (min (vx minPosition) (vx v)) (min (vy minPosition) (vy v))
            (min (vz minPosition) (vz v)))"

text \<open>
  \<^verbatim>\<open>normalize\<close>. It returns the geometry in every case. When the bounding box has no
  extent, \<^verbatim>\<open>longestDist\<close> is zero and \<^verbatim>\<open>scale\<close> is Infinity: the loop still subtracts
  the center from every vertex, and \<^verbatim>\<open>mult\<close> leaves the difference as it is.
\<close>

definition normalize_geom :: "(real \<Rightarrow> real) \<Rightarrow> geometry \<Rightarrow> geometry" where
  "normalize_geom fl g =
     (if length (vertices g) > 0 then
        (case boundsLoop (vertices g) (vertices g ! 0, vertices g ! 0) of
           (maxPosition, minPosition) \<Rightarrow>
             (let center = vlerpR fl maxPosition minPosition (1 / 2);
                  dist = vsubR fl maxPosition minPosition;
                  longestDist = max (max (vx dist) (vy dist)) (vz dist);
                  scale = divR fl 200 longestDist
              in g\<lparr>vertices :=
                     map (\<lambda>v. vmultR fl (vsubR fl v center) scale) (vertices g)\<rparr>))
      else g)"

text \<open>
  The axis-aligned bounding box of a list of vertices, as a specification: the largest
  and the smallest coordinate along an axis, the middle of the box along an axis, the
  box being centered at the origin, its longest dimension, and the largest absolute
  value of a coordinate along an axis.
\<close>

definition boxMax :: "(vec \<Rightarrow> real) \<Rightarrow> vec list \<Rightarrow> real" where
  "boxMax axis vs = Max (axis ` set vs)"

definition boxMin :: "(vec \<Rightarrow> real) \<Rightarrow> vec list \<Rightarrow> real" where
  "boxMin axis vs = Min (axis ` set vs)"

definition boxCenter :: "(vec \<Rightarrow> real) \<Rightarrow> vec list \<Rightarrow> real" where
  "boxCenter axis vs = (boxMax axis vs + boxMin axis vs) / 2"

definition boxCentered :: "vec list \<Rightarrow> bool" where
  "boxCentered vs = (boxCenter vx vs = 0 \<and> boxCenter vy vs = 0 \<and> boxCenter vz vs = 0)"

definition boxLongest :: "vec list \<Rightarrow> real" where
  "boxLongest vs =
     max (max (boxMax vx vs - boxMin vx vs) (boxMax vy vs - boxMin vy vs))
         (boxMax vz vs - boxMin vz vs)"

definition boxReach :: "(vec \<Rightarrow> real) \<Rightarrow> vec list \<Rightarrow> real" where
  "boxReach axis vs = max \<bar>boxMax axis vs\<bar> \<bar>boxMin axis vs\<bar>"

text \<open>
  What \<^verbatim>\<open>sub\<close> followed by \<^verbatim>\<open>mult\<close> does to one coordinate, and the coordinate
  of the center that \<^verbatim>\<open>lerp\<close> computes from the two corners of the box.
\<close>

definition axisMap :: "(real \<Rightarrow> real) \<Rightarrow> real \<Rightarrow> real \<Rightarrow> real \<Rightarrow> real" where
  "axisMap fl c s x = fl (fl (x - c) * s)"

definition axisCenter :: "(real \<Rightarrow> real) \<Rightarrow> (vec \<Rightarrow> real) \<Rightarrow> vec list \<Rightarrow> real" where
  "axisCenter fl axis vs = lerpR fl (boxMax axis vs) (boxMin axis vs) (1 / 2)"

definition longestDistR :: "(real \<Rightarrow> real) \<Rightarrow> vec list \<Rightarrow> real" where
  "longestDistR fl vs =
     max (max (fl (boxMax vx vs - boxMin vx vs)) (fl (boxMax vy vs - boxMin vy vs)))
         (fl (boxMax vz vs - boxMin vz vs))"

section \<open>Stroke tessellation\<close>

subsection \<open>Emitting segments, caps and joins\<close>

text \<open>
  Each of \<^verbatim>\<open>_addSegment\<close>, \<^verbatim>\<open>_addCap\<close> and \<^verbatim>\<open>_addJoin\<close> appends to the five
  stroke buffers. A loop that pushes the same array \<open>n\<close> times is \<open>pushTimes n\<close>.
\<close>

definition pushTimes :: "nat \<Rightarrow> 'a list \<Rightarrow> 'a list" where
  "pushTimes n xs = concat (replicate n xs)"

definition addSegment ::
  "geometry \<Rightarrow> vec \<Rightarrow> vec \<Rightarrow> real list \<Rightarrow> real list \<Rightarrow> vec \<Rightarrow> geometry" where
  "addSegment g begin end fromColor toColor dir =
     (let a = varray begin; b = varray end; dirArr = varray dir
      in g\<lparr>lineSides := lineSides g @ [1, 1, - 1, 1, - 1, - 1],
           lineTangentsIn := lineTangentsIn g @ pushTimes 6 dirArr,
           lineTangentsOut := lineTangentsOut g @ pushTimes 6 dirArr,
           lineVertices := lineVertices g @ a @ b @ a @ b @ b @ a,
           lineVertexColors := lineVertexColors g @
             fromColor @ toColor @ fromColor @ toColor @ toColor @ fromColor\<rparr>)"

definition addCap :: "geometry \<Rightarrow> vec \<Rightarrow> vec \<Rightarrow> real list \<Rightarrow> geometry" where
  "addCap g point tangent color =
     (let ptArray = varray point; tanInArray = varray tangent; tanOutArray = [0, 0, 0]
      in g\<lparr>lineVertices := lineVertices g @ pushTimes 6 ptArray,
           lineTangentsIn := lineTangentsIn g @ pushTimes 6 tanInArray,
           lineTangentsOut := lineTangentsOut g @ pushTimes 6 tanOutArray,
           lineVertexColors := lineVertexColors g @ pushTimes 6 color,
           lineSides := lineSides g @ [- 1, 2, - 2, 1, 2, - 1]\<rparr>)"

definition addJoin :: "geometry \<Rightarrow> vec \<Rightarrow> vec \<Rightarrow> vec \<Rightarrow> real list \<Rightarrow> geometry" where
  "addJoin g point fromTangent toTangent color =
     (let ptArray = varray point; tanInArray = varray fromTangent;
          tanOutArray = varray toTangent
      in g\<lparr>lineVertices := lineVertices g @ pushTimes 12 ptArray,
           lineTangentsIn := lineTangentsIn g @ pushTimes 12 tanInArray,
           lineTangentsOut := lineTangentsOut g @ pushTimes 12 tanOutArray,
           lineVertexColors := lineVertexColors g @ pushTimes 12 color,
           lineSides := lineSides g @ [- 1, - 3, - 2, - 1, 0, - 3] @ [3, 1, 2, 3, 0, 1]\<rparr>)"

subsection \<open>The state of the edge pass\<close>

text \<open>
  A potential cap is the object \<^verbatim>\<open>{ point, dir, color }\<close>. The JavaScript
  \<^verbatim>\<open>Map\<close> of potential caps iterates in insertion order, so it is a list of
  key and value pairs: \<open>capsSet\<close> overwrites in place or appends, \<open>capsDelete\<close>
  removes the key.
\<close>

record cap =
  cap_point :: vec
  cap_dir :: vec
  cap_color :: "real list"

type_synonym caps = "(nat \<times> cap) list"

definition capsGet :: "caps \<Rightarrow> nat \<Rightarrow> cap option" where
  "capsGet m k = map_of m k"

fun capsSet :: "caps \<Rightarrow> nat \<Rightarrow> cap \<Rightarrow> caps" where
  "capsSet [] k c = [(k, c)]"
| "capsSet ((k', c') # m) k c =
     (if k' = k then (k, c) # m else (k', c') # capsSet m k c)"

definition capsDelete :: "caps \<Rightarrow> nat \<Rightarrow> caps" where
  "capsDelete m k = filter (\<lambda>kc. fst kc \<noteq> k) m"

record stroke_state =
  geom :: geometry
  potentialCaps :: caps
  connected :: "nat set"
  lastValidDir :: "vec option"

text \<open>
  The color of vertex \<open>k\<close>: a slice of four entries of the flat stroke color array, or
  \<open>[0, 0, 0, 0]\<close> when that array is empty. \<^verbatim>\<open>Array.prototype.slice\<close> clamps to the
  array.
\<close>

definition slice :: "'a list \<Rightarrow> nat \<Rightarrow> nat \<Rightarrow> 'a list" where
  "slice xs a b = take (b - a) (drop a xs)"

definition strokeColor :: "geometry \<Rightarrow> nat \<Rightarrow> real list" where
  "strokeColor g k =
     (if length (vertexStrokeColors g) > 0
      then slice (vertexStrokeColors g) (k * 4) ((k + 1) * 4)
      else [0, 0, 0, 0])"

subsection \<open>One edge\<close>

text \<open>
  The branch taken when edge \<open>i\<close> starts at the end vertex \<open>v\<close> of edge \<open>i - 1\<close>.
\<close>

definition continueLine ::
  "stroke_state \<Rightarrow> nat \<Rightarrow> vec \<Rightarrow> vec \<Rightarrow> bool \<Rightarrow> real list \<Rightarrow> stroke_state" where
  "continueLine st v begin dir dirOK fromColor =
     (if v \<notin> connected st then
        (let st' = st\<lparr>connected := insert v (connected st),
                      potentialCaps := capsDelete (potentialCaps st) v\<rparr>
         in case lastValidDir st' of
              None \<Rightarrow> st'
            | Some lvd \<Rightarrow>
                if dirOK \<and> vdot dir lvd < 1 - 1 / 10 ^ 8
                then st'\<lparr>geom := addJoin (geom st') begin lvd dir fromColor\<rparr>
                else st')
      else st)"

text \<open>The first half of the other branch: the start vertex \<open>v\<close> of a new line.\<close>

definition startLine ::
  "stroke_state \<Rightarrow> nat \<Rightarrow> vec \<Rightarrow> vec \<Rightarrow> bool \<Rightarrow> real list \<Rightarrow> stroke_state" where
  "startLine st v begin dir dirOK fromColor =
     (if dirOK \<and> v \<notin> connected st then
        (case capsGet (potentialCaps st) v of
           Some existingCap \<Rightarrow>
             st\<lparr>geom := addJoin (geom st) begin (cap_dir existingCap) dir fromColor,
                potentialCaps := capsDelete (potentialCaps st) v,
                connected := insert v (connected st)\<rparr>
         | None \<Rightarrow>
             st\<lparr>potentialCaps := capsSet (potentialCaps st) v
                  \<lparr>cap_point = begin, cap_dir = vmult dir (- 1), cap_color = fromColor\<rparr>\<rparr>)
      else st)"

text \<open>
  The second half: the end vertex of the previous edge is closed off. \<open>prevEdge\<close> is
  \<^verbatim>\<open>undefined\<close> for the first edge, and reading its end vertex then throws.
\<close>

definition closePrevious ::
  "stroke_state \<Rightarrow> edge option \<Rightarrow> real list \<Rightarrow> error + stroke_state" where
  "closePrevious st prevEdge fromColor =
     (case lastValidDir st of
        None \<Rightarrow> Inr st
      | Some lvd \<Rightarrow>
         (case prevEdge of
            None \<Rightarrow> Inl TypeError
          | Some pe \<Rightarrow>
             if snd pe \<notin> connected st then
               (case capsGet (potentialCaps st) (snd pe) of
                  Some existingCap \<Rightarrow>
                    (case vertexAt (geom st) (snd pe) of
                       Inl e \<Rightarrow> Inl e
                     | Inr p \<Rightarrow>
                         Inr (st\<lparr>geom := addJoin (geom st) p lvd
                                          (vmult (cap_dir existingCap) (- 1)) fromColor,
                                 potentialCaps := capsDelete (potentialCaps st) (snd pe),
                                 connected := insert (snd pe) (connected st),
                                 lastValidDir := None\<rparr>))
                | None \<Rightarrow>
                    (case vertexAt (geom st) (snd pe) of
                       Inl e \<Rightarrow> Inl e
                     | Inr p \<Rightarrow>
                         Inr (st\<lparr>potentialCaps := capsSet (potentialCaps st) (snd pe)
                                   \<lparr>cap_point = p, cap_dir = lvd, cap_color = fromColor\<rparr>,
                                 lastValidDir := None\<rparr>)))
             else Inr st))"

text \<open>The end vertex \<open>v\<close> of the last edge.\<close>

definition finishLine ::
  "stroke_state \<Rightarrow> nat \<Rightarrow> vec \<Rightarrow> vec \<Rightarrow> real list \<Rightarrow> stroke_state" where
  "finishLine st v end dir toColor =
     (if v \<notin> connected st then
        (case capsGet (potentialCaps st) v of
           Some existingCap \<Rightarrow>
             st\<lparr>geom := addJoin (geom st) end dir (vmult (cap_dir existingCap) (- 1)) toColor,
                potentialCaps := capsDelete (potentialCaps st) v,
                connected := insert v (connected st)\<rparr>
         | None \<Rightarrow>
             st\<lparr>potentialCaps := capsSet (potentialCaps st) v
                  \<lparr>cap_point = end, cap_dir = dir, cap_color = toColor\<rparr>\<rparr>)
      else st)"

text \<open>
  The body of the loop over the edges, for edge number \<open>i\<close>. An edge whose vertex index
  is outside \<^verbatim>\<open>vertices\<close> makes the source call a method of \<^verbatim>\<open>undefined\<close>; the model
  stops with \<open>TypeError\<close> as soon as such an index is read.
\<close>

definition edgeStep :: "nat \<Rightarrow> stroke_state \<Rightarrow> error + stroke_state" where
  "edgeStep i st =
     (let g = geom st;
          prevEdge = (if i > 0 then Some (edges g ! (i - 1)) else None);
          currEdge = edges g ! i
      in case vertexAt g (fst currEdge) of Inl e \<Rightarrow> Inl e | Inr begin \<Rightarrow>
        (case vertexAt g (snd currEdge) of Inl e \<Rightarrow> Inl e | Inr end \<Rightarrow>
          (let fromColor = strokeColor g (fst currEdge);
               toColor = strokeColor g (snd currEdge);
               dir = vnormalize (vsub end begin);
               dirOK = (magSq dir > 0);
               st1 = (if dirOK
                      then st\<lparr>geom := addSegment g begin end fromColor toColor dir\<rparr>
                      else st)
           in case (if i > 0 \<and> snd (edges g ! (i - 1)) = fst currEdge
                    then Inr (continueLine st1 (fst currEdge) begin dir dirOK fromColor)
                    else closePrevious
                           (startLine st1 (fst currEdge) begin dir dirOK fromColor)
                           prevEdge fromColor) of
                Inl e \<Rightarrow> Inl e
              | Inr st2 \<Rightarrow>
                 (let st3 = (if i = length (edges g) - 1
                             then finishLine st2 (snd currEdge) end dir toColor
                             else st2)
                  in Inr (if dirOK then st3\<lparr>lastValidDir := Some dir\<rparr> else st3)))))"

text \<open>
  The loop over the edges. No step changes the edge list, so its length \<open>n\<close> is read
  once.
\<close>

function edgesLoop :: "nat \<Rightarrow> nat \<Rightarrow> stroke_state \<Rightarrow> error + stroke_state" where
  "edgesLoop n i st =
     (if i < n then
        (case edgeStep i st of Inl e \<Rightarrow> Inl e | Inr st' \<Rightarrow> edgesLoop n (i + 1) st')
      else Inr st)"
  by pat_completeness auto
termination
  by (relation "measure (\<lambda>(n, i, st). n - i)") auto

text \<open>The final loop over the values of the map: one cap for every record left.\<close>

fun capsLoop :: "geometry \<Rightarrow> caps \<Rightarrow> geometry" where
  "capsLoop g [] = g"
| "capsLoop g ((k, c) # m) = capsLoop (addCap g (cap_point c) (cap_dir c) (cap_color c)) m"

text \<open>
  \<^verbatim>\<open>_edgesToVertices\<close>. Four of the five stroke buffers are cleared first; the source
  does not clear \<^verbatim>\<open>lineVertexColors\<close> here.
\<close>

definition edgesToVertices :: "geometry \<Rightarrow> error + geometry" where
  "edgesToVertices g =
     (let g0 = g\<lparr>lineVertices := [], lineTangentsIn := [], lineTangentsOut := [],
                  lineSides := []\<rparr>
      in case edgesLoop (length (edges g0)) 0
                \<lparr>geom = g0, potentialCaps = [], connected = {}, lastValidDir = None\<rparr> of
           Inl e \<Rightarrow> Inl e
         | Inr st \<Rightarrow> Inr (capsLoop (geom st) (potentialCaps st)))"

text \<open>
  For statements about single edges: the state in which the loop starts, the direction
  the loop body computes for edge \<open>i\<close> with its validity test, and the value of
  \<^verbatim>\<open>lastValidDir\<close> after the first \<open>n\<close> edges.
\<close>

definition strokeInit :: "geometry \<Rightarrow> stroke_state" where
  "strokeInit g =
     \<lparr>geom = g\<lparr>lineVertices := [], lineTangentsIn := [], lineTangentsOut := [],
                 lineSides := []\<rparr>,
      potentialCaps = [], connected = {}, lastValidDir = None\<rparr>"

definition edgeDir :: "geometry \<Rightarrow> nat \<Rightarrow> vec" where
  "edgeDir g i =
     vnormalize (vsub (vertices g ! snd (edges g ! i)) (vertices g ! fst (edges g ! i)))"

definition edgeDirOK :: "geometry \<Rightarrow> nat \<Rightarrow> bool" where
  "edgeDirOK g i = (magSq (edgeDir g i) > 0)"

text \<open>
  The condition under which the specification expects a join when edge \<open>i\<close> continues the
  previous edge: a direction is stored, the direction of edge \<open>i\<close> is valid, and their
  dot product is below \<open>1 - 1e-8\<close>.
\<close>

definition joinCondition :: "stroke_state \<Rightarrow> nat \<Rightarrow> bool" where
  "joinCondition st i =
     (case lastValidDir st of
        None \<Rightarrow> False
      | Some lvd \<Rightarrow>
          edgeDirOK (geom st) i \<and> vdot (edgeDir (geom st) i) lvd < 1 - 1 / 10 ^ 8)"

definition lastDirAfter :: "geometry \<Rightarrow> nat \<Rightarrow> error + vec option" where
  "lastDirAfter g n =
     (case edgesLoop n 0 (strokeInit g) of Inl e \<Rightarrow> Inl e | Inr st \<Rightarrow> Inr (lastValidDir st))"

text \<open>The map of potential caps and the side codes after the first \<open>n\<close> edges.\<close>

definition capsAfter :: "geometry \<Rightarrow> nat \<Rightarrow> error + caps" where
  "capsAfter g n =
     (case edgesLoop n 0 (strokeInit g) of Inl e \<Rightarrow> Inl e | Inr st \<Rightarrow> Inr (potentialCaps st))"

definition sidesAfter :: "geometry \<Rightarrow> nat \<Rightarrow> error + int list" where
  "sidesAfter g n =
     (case edgesLoop n 0 (strokeInit g) of
        Inl e \<Rightarrow> Inl e
      | Inr st \<Rightarrow> Inr (lineSides (geom st)))"

text \<open>
  Well-formed input of the edge pass: every edge joins two indices of \<^verbatim>\<open>vertices\<close>.
  And the invariant of the pass when there are no stroke colors: every color pushed
  after the entries \<open>base\<close> that were in the buffer before is zero, four for each
  stroke vertex, and every potential cap carries the color \<open>[0, 0, 0, 0]\<close>.
\<close>

definition edgesInRange :: "geometry \<Rightarrow> bool" where
  "edgesInRange g =
     (\<forall>(a, b) \<in> set (edges g). a < length (vertices g) \<and> b < length (vertices g))"

definition colorsZero :: "real list \<Rightarrow> geometry \<Rightarrow> bool" where
  "colorsZero base g =
     (vertexStrokeColors g = []
      \<and> lineVertexColors g = base @ replicate (4 * length (lineSides g)) 0)"

definition capsZero :: "caps \<Rightarrow> bool" where
  "capsZero m = (\<forall>kc \<in> set m. cap_color (snd kc) = [0, 0, 0, 0])"

section \<open>The polygon triangulator's combine callback\<close>

text \<open>
  A slot of the result is a number or NaN; \<open>None\<close> is NaN. Reading \<^verbatim>\<open>data[i][j]\<close>
  beyond the end of the tuple gives \<^verbatim>\<open>undefined\<close>, and its product with a weight is
  NaN, which every later sum keeps. An entry of \<^verbatim>\<open>data\<close> that is \<^verbatim>\<open>null\<close> or
  \<^verbatim>\<open>undefined\<close>, or beyond the end of \<^verbatim>\<open>data\<close>, is \<open>None\<close>.
\<close>

definition tessyVertexSize :: nat where
  "tessyVertexSize = 12"

definition dataAt :: "real list option list \<Rightarrow> nat \<Rightarrow> real list option" where
  "dataAt data i = (if i < length data then data ! i else None)"

definition slotProduct :: "real list \<Rightarrow> nat \<Rightarrow> real \<Rightarrow> real option" where
  "slotProduct d j w = (if j < length d then Some (d ! j * w) else None)"

definition slotAdd :: "real option \<Rightarrow> real option \<Rightarrow> real option" where
  "slotAdd a b = (case (a, b) of (Some x, Some y) \<Rightarrow> Some (x + y) | _ \<Rightarrow> None)"

function combine_j ::
  "real list option \<Rightarrow> real \<Rightarrow> nat \<Rightarrow> real option list \<Rightarrow> real option list" where
  "combine_j d w j result =
     (if j < length result then
        (if w = 0 \<or> d = None then combine_j d w (j + 1) result
         else combine_j d w (j + 1)
                (result[j := slotAdd (result ! j) (slotProduct (the d) j w)]))
      else result)"
  by pat_completeness auto
termination
  by (relation "measure (\<lambda>(d, w, j, result). length result - j)") auto

function combine_i ::
  "real list option list \<Rightarrow> real list \<Rightarrow> nat \<Rightarrow> real option list \<Rightarrow> real option list" where
  "combine_i data weight i result =
     (if i < length weight then
        combine_i data weight (i + 1) (combine_j (dataAt data i) (weight ! i) 0 result)
      else result)"
  by pat_completeness auto
termination
  by (relation "measure (\<lambda>(data, weight, i, result). length weight - i)") auto

definition combinecallback ::
  "real list \<Rightarrow> real list option list \<Rightarrow> real list \<Rightarrow> real option list" where
  "combinecallback coords data weight =
     combine_i data weight 0 (replicate tessyVertexSize (Some 0))"

text \<open>
  The specification's weighted sum for slot \<open>j\<close>: the sum over the entries \<open>i\<close> of
  \<^verbatim>\<open>weight\<close> of \<open>weight[i] * data[i][j]\<close>, an entry with weight zero or without data
  counting as nothing.
\<close>

definition contribution :: "real list option list \<Rightarrow> real list \<Rightarrow> nat \<Rightarrow> nat \<Rightarrow> real" where
  "contribution data weight j i =
     (case dataAt data i of
        None \<Rightarrow> 0
      | Some tuple \<Rightarrow> if weight ! i = 0 then 0 else weight ! i * tuple ! j)"

definition weightedSum :: "real list option list \<Rightarrow> real list \<Rightarrow> nat \<Rightarrow> real" where
  "weightedSum data weight j = sum_list (map (contribution data weight j) [0..<length weight])"

section \<open>Building a geometry\<close>

text \<open>
  The renderer's field \<^verbatim>\<open>geometryBuilder\<close> is an object or \<^verbatim>\<open>undefined\<close>. The class
  \<^verbatim>\<open>GeometryBuilder\<close> is imported from another file: its constructor and its method
  \<^verbatim>\<open>finish\<close> are parameters.
\<close>

record 'b rendererGL =
  geometryBuilder :: "'b option"

definition beginGeometry ::
  "('b rendererGL \<Rightarrow> 'b) \<Rightarrow> 'b rendererGL \<Rightarrow> error + 'b rendererGL" where
  "beginGeometry newGeometryBuilder r =
     (if geometryBuilder r \<noteq> None then
        Inl (Error ''It looks like `beginGeometry()` is being called while another p5.Geometry is already being build.'')
      else Inr (r\<lparr>geometryBuilder := Some (newGeometryBuilder r)\<rparr>))"

definition endGeometry ::
  "('b \<Rightarrow> 'g) \<Rightarrow> 'b rendererGL \<Rightarrow> error + ('g \<times> 'b rendererGL)" where
  "endGeometry finish r =
     (case geometryBuilder r of
        None \<Rightarrow> Inl (Error ''Make sure you call beginGeometry() before endGeometry()!'')
      | Some builder \<Rightarrow> Inr (finish builder, r\<lparr>geometryBuilder := None\<rparr>))"

section \<open>Example geometries\<close>

text \<open>A grid of three by two vertices with a stale face list.\<close>

definition grid23 :: geometry where
  "grid23 = \<lparr>vertices = [], lineVertices = [], lineTangentsIn = [], lineTangentsOut = [],
     lineSides = [], vertexNormals = [], faces = [(7, 7, 7)], uvs = [], edges = [],
     vertexColors = [], vertexStrokeColors = [], lineVertexColors = [],
     detailX = 2, detailY = 1, dirtyFlags = []\<rparr>"

text \<open>
  Three vertices offered to the combine callback with four weights: the second has no
  data, the fourth has weight zero and lies beyond the end of \<^verbatim>\<open>data\<close>.
\<close>

definition combineData :: "real list option list" where
  "combineData = [Some [1, 2, 3, 4, 5, 6, 7, 8, 9, 10, 11, 12], None, Some (replicate 12 4)]"

definition combineWeight :: "real list" where
  "combineWeight = [1 / 2, 1 / 4, 1 / 2, 0]"

text \<open>
  Four vertices and two faces: a right triangle in the plane \<open>z = 0\<close> and a face whose
  three vertices lie on one line.
\<close>

definition wedge :: geometry where
  "wedge = \<lparr>vertices = [Vec 0 0 0, Vec 1 0 0, Vec 0 1 0, Vec 2 0 0], lineVertices = [],
     lineTangentsIn = [], lineTangentsOut = [], lineSides = [], vertexNormals = [],
     faces = [(0, 1, 2), (0, 1, 3)], uvs = [], edges = [], vertexColors = [],
     vertexStrokeColors = [], lineVertexColors = [], detailX = 1, detailY = 1,
     dirtyFlags = []\<rparr>"

text \<open>A geometry with one vertex, and two with two.\<close>

definition onePoint :: geometry where
  "onePoint = \<lparr>vertices = [Vec 1 2 3], lineVertices = [],
     lineTangentsIn = [], lineTangentsOut = [], lineSides = [], vertexNormals = [],
     faces = [], uvs = [], edges = [], vertexColors = [], vertexStrokeColors = [],
     lineVertexColors = [], detailX = 1, detailY = 1, dirtyFlags = []\<rparr>"

definition twoPoints :: geometry where
  "twoPoints = \<lparr>vertices = [Vec 1 2 3, Vec 5 4 3], lineVertices = [],
     lineTangentsIn = [], lineTangentsOut = [], lineSides = [], vertexNormals = [],
     faces = [], uvs = [], edges = [], vertexColors = [], vertexStrokeColors = [],
     lineVertexColors = [], detailX = 1, detailY = 1, dirtyFlags = []\<rparr>"

definition elevenApart :: geometry where
  "elevenApart = \<lparr>vertices = [Vec 0 0 0, Vec 11 0 0], lineVertices = [],
     lineTangentsIn = [], lineTangentsOut = [], lineSides = [], vertexNormals = [],
     faces = [], uvs = [], edges = [], vertexColors = [], vertexStrokeColors = [],
     lineVertexColors = [], detailX = 1, detailY = 1, dirtyFlags = []\<rparr>"

text \<open>
  A rounding function for \<open>elevenApart\<close>. On that geometry \<^verbatim>\<open>normalize\<close> computes
  the scale \<open>200 / 11\<close> and the products of \<open>5.5\<close> and \<open>-5.5\<close> with it; every other
  number it meets is a small multiple of one half, which a double holds exactly.
  \<open>scale11\<close> is the double nearest to \<open>200 / 11\<close>, which is
  \<open>18.181818181818183\<close>, and \<open>edge11\<close> the double nearest to \<open>5.5 * scale11\<close>,
  which is \<open>100.00000000000001\<close>. \<open>flDouble11\<close> sends every number closer than half a
  unit in the last place to \<open>scale11\<close>, \<open>edge11\<close> or their negatives to that double,
  as rounding to nearest does, and leaves every other number as it is.
\<close>

definition scale11 :: real where
  "scale11 = 5117726849284655 / 2 ^ 48"

definition edge11 :: real where
  "edge11 = 7036874417766401 / 2 ^ 46"

definition flDouble11 :: "real \<Rightarrow> real" where
  "flDouble11 x =
     (if scale11 - 1 / 2 ^ 49 < x \<and> x < scale11 + 1 / 2 ^ 49 then scale11
      else if edge11 - 1 / 2 ^ 47 < x \<and> x < edge11 + 1 / 2 ^ 47 then edge11
      else if - scale11 - 1 / 2 ^ 49 < x \<and> x < - scale11 + 1 / 2 ^ 49 then - scale11
      else if - edge11 - 1 / 2 ^ 47 < x \<and> x < - edge11 + 1 / 2 ^ 47 then - edge11
      else x)"

text \<open>
  Polylines: one edge of length one; a right angle at the middle vertex; three
  vertices on a line; an edge followed by a zero-length edge at its end vertex; and an
  edge followed by a zero-length edge somewhere else.
\<close>

definition polyline :: "vec list \<Rightarrow> edge list \<Rightarrow> geometry" where
  "polyline vs es = \<lparr>vertices = vs, lineVertices = [],
     lineTangentsIn = [], lineTangentsOut = [], lineSides = [], vertexNormals = [],
     faces = [], uvs = [], edges = es, vertexColors = [], vertexStrokeColors = [],
     lineVertexColors = [], detailX = 1, detailY = 1, dirtyFlags = []\<rparr>"

definition unitEdge :: geometry where
  "unitEdge = polyline [Vec 0 0 0, Vec 1 0 0] [(0, 1)]"

definition rightAngle :: geometry where
  "rightAngle = polyline [Vec 0 0 0, Vec 1 0 0, Vec 1 1 0] [(0, 1), (1, 2)]"

definition straightLine :: geometry where
  "straightLine = polyline [Vec 0 0 0, Vec 1 0 0, Vec 2 0 0] [(0, 1), (1, 2)]"

definition pausedLine :: geometry where
  "pausedLine = polyline [Vec 0 0 0, Vec 1 0 0] [(0, 1), (1, 1)]"

definition strayPoint :: geometry where
  "strayPoint = polyline [Vec 0 0 0, Vec 1 0 0, Vec 5 5 5] [(0, 1), (2, 2)]"

text \<open>
  Two edges listed against their direction, so that the second ends where the first
  starts, followed by a zero-length edge somewhere else.
\<close>

definition crossing :: geometry where
  "crossing =
     polyline [Vec 0 0 0, Vec 1 0 0, Vec 1 1 0, Vec 5 5 5] [(1, 2), (0, 1), (3, 3)]"

section \<open>Properties of computeFaces\<close>

declare computeFaces_j.simps [simp del] computeFaces_i.simps [simp del]

lemma computeFaces_j_step:
  "j < dX \<Longrightarrow>
     computeFaces_j dX s i j fs = computeFaces_j dX s i (j + 1) (fs @ cellFaces s i j)"
  by (subst computeFaces_j.simps) (simp add: cellFaces_def Let_def)

lemma computeFaces_j_eq:
  "computeFaces_j dX s i j fs = fs @ concat (map (cellFaces s i) [j..<dX])"
proof (induction "dX - j" arbitrary: j fs)
  case 0
  then show ?case by (subst computeFaces_j.simps) simp
next
  case (Suc k)
  then have lt: "j < dX" and k: "k = dX - (j + 1)" by simp_all
  have "[j..<dX] = j # [Suc j..<dX]" using lt by (simp add: upt_conv_Cons)
  then show ?case
    using Suc.hyps(1) [OF k, of "fs @ cellFaces s i j"] computeFaces_j_step [OF lt, of s i fs]
    by simp
qed

lemma computeFaces_i_eq:
  "computeFaces_i dX dY s i fs =
     fs @ concat (map (\<lambda>i. concat (map (cellFaces s i) [0..<dX])) [i..<dY])"
proof (induction dX dY s i fs rule: computeFaces_i.induct)
  case (1 dX dY s i fs)
  show ?case
  proof (cases "i < dY")
    case True
    then have "[i..<dY] = i # [Suc i..<dY]" by (simp add: upt_conv_Cons)
    with True 1 show ?thesis
      by (subst computeFaces_i.simps) (simp add: computeFaces_j_eq)
  next
    case False
    then show ?thesis by (subst computeFaces_i.simps) simp
  qed
qed

lemma length_concat_blocks:
  fixes n k :: nat
  shows "(\<And>i. i < n \<Longrightarrow> length (f i) = k) \<Longrightarrow> length (concat (map f [0..<n])) = n * k"
  by (induction n) auto

lemma nth_concat_blocks:
  fixes n k i r :: nat
  assumes "\<And>i. i < n \<Longrightarrow> length (f i) = k" and "i < n" and "r < k"
  shows "concat (map f [0..<n]) ! (i * k + r) = f i ! r"
  using assms
proof (induction n)
  case 0
  then show ?case by simp
next
  case (Suc n)
  have len: "length (concat (map f [0..<n])) = n * k"
    using Suc.prems(1) by (intro length_concat_blocks) simp
  show ?case
  proof (cases "i < n")
    case True
    then have "i * k + r < n * k"
      using Suc.prems(3)
      by (metis add.commute mult_Suc less_le_trans nat_add_left_cancel_less Suc_leI mult_le_mono1)
    with True Suc len show ?thesis by (simp add: nth_append)
  next
    case False
    with Suc.prems have "i = n" by simp
    with len show ?thesis by (simp add: nth_append)
  qed
qed

lemma length_cellFaces: "length (cellFaces s i j) = 2"
  by (simp add: cellFaces_def Let_def)

lemma length_row: "length (concat (map (cellFaces s i) [0..<dX])) = dX * 2"
  by (rule length_concat_blocks) (simp add: length_cellFaces)

lemma faces_computeFaces:
  "faces (computeFaces g) =
     concat (map (\<lambda>i. concat (map (cellFaces (detailX g + 1) i) [0..<detailX g]))
       [0..<detailY g])"
  by (simp add: computeFaces_def computeFaces_i_eq)

lemma grid_nth:
  fixes i j r dX dY :: nat
  assumes "i < dY" and "j < dX" and "r < 2"
  shows "concat (map (\<lambda>i. concat (map (cellFaces s i) [0..<dX])) [0..<dY])
           ! (2 * (i * dX + j) + r) = cellFaces s i j ! r"
proof -
  have idx: "2 * (i * dX + j) + r = i * (dX * 2) + (j * 2 + r)"
    by (simp add: algebra_simps)
  have "j * 2 + r < dX * 2" using assms by simp
  then have "concat (map (\<lambda>i. concat (map (cellFaces s i) [0..<dX])) [0..<dY])
          ! (i * (dX * 2) + (j * 2 + r)) = concat (map (cellFaces s i) [0..<dX]) ! (j * 2 + r)"
    using assms(1) by (intro nth_concat_blocks) (simp_all add: length_row)
  also have "\<dots> = cellFaces s i j ! r"
    using assms(2,3) by (intro nth_concat_blocks) (simp_all add: length_cellFaces)
  finally show ?thesis by (simp only: idx)
qed

lemma cell_index_bound:
  fixes i j dX dY :: nat
  assumes "i < dY" and "j < dX"
  shows "(i + 1) * (dX + 1) + j + 1 < (dX + 1) * (dY + 1)"
proof -
  have "i + 1 \<le> dY" using assms(1) by simp
  then have "(i + 1) * (dX + 1) \<le> dY * (dX + 1)"
    by (rule mult_le_mono1)
  then have "(i + 1) * (dX + 1) + j + 1 < dY * (dX + 1) + (dX + 1)"
    using assms(2) by simp
  then show ?thesis by (simp add: algebra_simps)
qed

lemma cellFaces_bound:
  fixes i j dX dY p q r :: nat
  assumes "i < dY" and "j < dX" and "(p, q, r) \<in> set (cellFaces (dX + 1) i j)"
  shows "p < (dX + 1) * (dY + 1) \<and> q < (dX + 1) * (dY + 1) \<and> r < (dX + 1) * (dY + 1)"
proof -
  have top: "(i + 1) * (dX + 1) + j + 1 < (dX + 1) * (dY + 1)"
    using assms(1,2) by (rule cell_index_bound)
  have "i * (dX + 1) \<le> (i + 1) * (dX + 1)" by simp
  with top assms(3) show ?thesis
    by (auto simp: cellFaces_def Let_def)
qed

text \<open>
  Claim C4. \<^verbatim>\<open>computeFaces\<close> produces exactly \<open>2 * detailX * detailY\<close> faces; every
  vertex index in a face is below \<open>(detailX + 1) * (detailY + 1)\<close>; cell \<open>(i, j)\<close>
  contributes, at positions \<open>2 * (i * detailX + j)\<close> and the next, the triangles
  \<open>[a, b, d]\<close> and \<open>[d, b, c]\<close> with \<open>a = i * stride + j\<close>, \<open>b = a + 1\<close>,
  \<open>c = (i + 1) * stride + j + 1\<close>, \<open>d = (i + 1) * stride + j\<close> and
  \<open>stride = detailX + 1\<close>; the whole list is the cells in row-major order; and the
  face list stored before has no influence on the result.
\<close>

theorem computeFaces_grid:
  "length (faces (computeFaces g)) = 2 * detailX g * detailY g
   \<and> (\<forall>(p, q, r) \<in> set (faces (computeFaces g)).
         p < (detailX g + 1) * (detailY g + 1)
       \<and> q < (detailX g + 1) * (detailY g + 1)
       \<and> r < (detailX g + 1) * (detailY g + 1))
   \<and> (\<forall>i < detailY g. \<forall>j < detailX g.
         faces (computeFaces g) ! (2 * (i * detailX g + j)) =
           (i * (detailX g + 1) + j, i * (detailX g + 1) + j + 1, (i + 1) * (detailX g + 1) + j)
       \<and> faces (computeFaces g) ! (2 * (i * detailX g + j) + 1) =
           ((i + 1) * (detailX g + 1) + j, i * (detailX g + 1) + j + 1,
            (i + 1) * (detailX g + 1) + j + 1))
   \<and> faces (computeFaces g) =
        concat (map (\<lambda>i. concat (map (cellFaces (detailX g + 1) i) [0..<detailX g]))
          [0..<detailY g])
   \<and> faces (computeFaces (g\<lparr>faces := old\<rparr>)) = faces (computeFaces g)"
proof (intro conjI)
  show "length (faces (computeFaces g)) = 2 * detailX g * detailY g"
    unfolding faces_computeFaces
    by (subst length_concat_blocks [where k = "detailX g * 2"]) (simp_all add: length_row)
  show "\<forall>(p, q, r) \<in> set (faces (computeFaces g)).
         p < (detailX g + 1) * (detailY g + 1)
       \<and> q < (detailX g + 1) * (detailY g + 1)
       \<and> r < (detailX g + 1) * (detailY g + 1)"
    unfolding faces_computeFaces
    using cellFaces_bound [of _ "detailY g" _ "detailX g"] by fastforce
  show "\<forall>i < detailY g. \<forall>j < detailX g.
         faces (computeFaces g) ! (2 * (i * detailX g + j)) =
           (i * (detailX g + 1) + j, i * (detailX g + 1) + j + 1, (i + 1) * (detailX g + 1) + j)
       \<and> faces (computeFaces g) ! (2 * (i * detailX g + j) + 1) =
           ((i + 1) * (detailX g + 1) + j, i * (detailX g + 1) + j + 1,
            (i + 1) * (detailX g + 1) + j + 1)"
  proof (intro allI impI)
    fix i j assume ij: "i < detailY g" "j < detailX g"
    have "faces (computeFaces g) ! (2 * (i * detailX g + j) + 0) =
            cellFaces (detailX g + 1) i j ! 0"
      unfolding faces_computeFaces using ij by (intro grid_nth) simp_all
    moreover have "faces (computeFaces g) ! (2 * (i * detailX g + j) + 1) =
            cellFaces (detailX g + 1) i j ! 1"
      unfolding faces_computeFaces using ij by (intro grid_nth) simp_all
    ultimately show "faces (computeFaces g) ! (2 * (i * detailX g + j)) =
           (i * (detailX g + 1) + j, i * (detailX g + 1) + j + 1, (i + 1) * (detailX g + 1) + j)
       \<and> faces (computeFaces g) ! (2 * (i * detailX g + j) + 1) =
           ((i + 1) * (detailX g + 1) + j, i * (detailX g + 1) + j + 1,
            (i + 1) * (detailX g + 1) + j + 1)"
      by (simp add: cellFaces_def Let_def)
  qed
  show "faces (computeFaces g) =
        concat (map (\<lambda>i. concat (map (cellFaces (detailX g + 1) i) [0..<detailX g]))
          [0..<detailY g])"
    by (rule faces_computeFaces)
  show "faces (computeFaces (g\<lparr>faces := old\<rparr>)) = faces (computeFaces g)"
    by (simp add: computeFaces_def)
qed

theorem computeFaces_grid_witness:
  "length (faces (computeFaces grid23)) = 4
   \<and> (0 < detailY grid23 \<and> 1 < detailX grid23
       \<and> faces (computeFaces grid23) ! 2 = (1, 2, 4)
       \<and> faces (computeFaces grid23) ! 3 = (4, 2, 5))
   \<and> ((4, 2, 5) \<in> set (faces (computeFaces grid23)) \<and> (5::nat) < 6)
   \<and> faces (computeFaces (grid23\<lparr>faces := []\<rparr>)) = faces (computeFaces grid23)"
proof -
  have dims: "detailX grid23 = 2" "detailY grid23 = 1"
    by (simp_all add: grid23_def)
  have mem: "(4, 2, 5) \<in> set (faces (computeFaces grid23))"
    by code_simp
  note grid = computeFaces_grid [of grid23 "[]"]
  have len: "length (faces (computeFaces grid23)) = 4"
    using grid [THEN conjunct1] by (simp add: dims)
  from grid have cellsAll: "\<forall>i < detailY grid23. \<forall>j < detailX grid23.
         faces (computeFaces grid23) ! (2 * (i * detailX grid23 + j)) =
           (i * (detailX grid23 + 1) + j, i * (detailX grid23 + 1) + j + 1,
            (i + 1) * (detailX grid23 + 1) + j)
       \<and> faces (computeFaces grid23) ! (2 * (i * detailX grid23 + j) + 1) =
           ((i + 1) * (detailX grid23 + 1) + j, i * (detailX grid23 + 1) + j + 1,
            (i + 1) * (detailX grid23 + 1) + j + 1)"
    by blast
  have ij: "0 < detailY grid23" "1 < detailX grid23"
    by (simp_all add: dims)
  have cells: "faces (computeFaces grid23) ! 2 = (1, 2, 4)
       \<and> faces (computeFaces grid23) ! 3 = (4, 2, 5)"
    using cellsAll [rule_format, OF ij] by (simp add: dims)
  from grid have repl: "faces (computeFaces (grid23\<lparr>faces := []\<rparr>)) = faces (computeFaces grid23)"
    by blast
  show ?thesis using len cells mem repl by (simp add: dims)
qed

section \<open>Properties of reset\<close>

lemma reset_clears:
  "vertices (reset g) = [] \<and> vertexNormals (reset g) = [] \<and> uvs (reset g) = []
   \<and> edges (reset g) = [] \<and> vertexColors (reset g) = []
   \<and> vertexStrokeColors (reset g) = [] \<and> lineVertices (reset g) = []
   \<and> lineTangentsIn (reset g) = [] \<and> lineTangentsOut (reset g) = []
   \<and> lineSides (reset g) = [] \<and> lineVertexColors (reset g) = []"
  by (simp add: reset_def)

lemma reset_faces: "faces (reset g) = faces g"
  by (simp add: reset_def)

text \<open>
  Claim C3. \<^verbatim>\<open>reset\<close> should leave every owned array empty, the faces among them.
  On a grid whose faces were computed, the vertices are gone after \<^verbatim>\<open>reset\<close> but the
  four faces are still there: the source has no line that clears \<^verbatim>\<open>faces\<close>.
\<close>

theorem reset_leaves_faces:
  "faces (reset (computeFaces grid23)) = [(0, 1, 3), (3, 1, 4), (1, 2, 4), (4, 2, 5)]
   \<and> vertices (reset (computeFaces grid23)) = []
   \<and> edges (reset (computeFaces grid23)) = []"
proof -
  have "faces (computeFaces grid23) = [(0, 1, 3), (3, 1, 4), (1, 2, 4), (4, 2, 5)]"
    by code_simp
  then show ?thesis
    by (simp add: reset_faces reset_clears)
qed

section \<open>Properties of beginGeometry and endGeometry\<close>

text \<open>
  Claim C8. \<^verbatim>\<open>endGeometry\<close> with no build in flight throws an error with a message
  that names the missing \<^verbatim>\<open>beginGeometry\<close>, and \<^verbatim>\<open>beginGeometry\<close> with a build
  in flight throws an error with a message that says so; neither returns normally.
\<close>

theorem geometry_build_errors:
  "(geometryBuilder r = None \<longrightarrow>
      endGeometry finish r =
        Inl (Error ''Make sure you call beginGeometry() before endGeometry()!'')
      \<and> (\<forall>res. endGeometry finish r \<noteq> Inr res))
   \<and> (geometryBuilder r \<noteq> None \<longrightarrow>
      beginGeometry newGeometryBuilder r =
        Inl (Error ''It looks like `beginGeometry()` is being called while another p5.Geometry is already being build.'')
      \<and> (\<forall>r'. beginGeometry newGeometryBuilder r \<noteq> Inr r'))"
  by (simp add: endGeometry_def beginGeometry_def)

theorem geometry_build_errors_witness:
  "geometryBuilder \<lparr>geometryBuilder = (None :: nat option)\<rparr> = None
   \<and> endGeometry (\<lambda>b. b) \<lparr>geometryBuilder = (None :: nat option)\<rparr> =
        Inl (Error ''Make sure you call beginGeometry() before endGeometry()!'')
   \<and> geometryBuilder \<lparr>geometryBuilder = Some (1 :: nat)\<rparr> \<noteq> None
   \<and> beginGeometry (\<lambda>r. 2) \<lparr>geometryBuilder = Some (1 :: nat)\<rparr> =
        Inl (Error ''It looks like `beginGeometry()` is being called while another p5.Geometry is already being build.'')"
  using geometry_build_errors [of "\<lparr>geometryBuilder = (None :: nat option)\<rparr>" "\<lambda>b. b" "\<lambda>r. 2"]
    geometry_build_errors [of "\<lparr>geometryBuilder = Some (1 :: nat)\<rparr>" "\<lambda>b. b" "\<lambda>r. 2"]
  by simp

section \<open>Properties of the combine callback\<close>

declare combine_j.simps [simp del] combine_i.simps [simp del]

lemma combine_j_length: "length (combine_j d w j result) = length result"
proof (induction d w j result rule: combine_j.induct)
  case (1 d w j result)
  then show ?case
    by (subst combine_j.simps) simp
qed

lemma combine_j_nth:
  "k < length result \<Longrightarrow>
   combine_j d w j result ! k =
     (if j \<le> k \<and> \<not> (w = 0 \<or> d = None)
      then slotAdd (result ! k) (slotProduct (the d) k w) else result ! k)"
proof (induction d w j result rule: combine_j.induct)
  case (1 d w j result)
  show ?case
  proof (cases "j < length result")
    case False
    with "1.prems" show ?thesis by (subst combine_j.simps) simp
  next
    case True
    show ?thesis
    proof (cases "w = 0 \<or> d = None")
      case skip: True
      with True 1 show ?thesis by (subst combine_j.simps) simp
    next
      case add: False
      then obtain t where d: "d = Some t" and w: "w \<noteq> 0" by auto
      have "combine_j d w j result =
              combine_j d w (j + 1)
                (result[j := slotAdd (result ! j) (slotProduct (the d) j w)])"
        by (subst combine_j.simps) (simp add: True d w)
      moreover have "combine_j d w (j + 1)
                (result[j := slotAdd (result ! j) (slotProduct (the d) j w)]) ! k =
          (if j + 1 \<le> k \<and> \<not> (w = 0 \<or> d = None)
           then slotAdd (result[j := slotAdd (result ! j) (slotProduct (the d) j w)] ! k)
                  (slotProduct (the d) k w)
           else result[j := slotAdd (result ! j) (slotProduct (the d) j w)] ! k)"
        using "1.IH"(2) [OF True add] "1.prems" by simp
      ultimately show ?thesis
        using add "1.prems" by (cases "k = j") (auto simp: nth_list_update)
    qed
  qed
qed

lemma combine_j_finite:
  assumes "w \<noteq> 0 \<longrightarrow> (\<forall>t. dataAt data i = Some t \<longrightarrow> length rs \<le> length t)"
    and "w = weight ! i"
  shows "combine_j (dataAt data i) w 0 (map Some rs) =
           map Some (map (\<lambda>k. rs ! k + contribution data weight k i) [0..<length rs])"
proof (rule nth_equalityI)
  show "length (combine_j (dataAt data i) w 0 (map Some rs)) =
        length (map Some (map (\<lambda>k. rs ! k + contribution data weight k i) [0..<length rs]))"
    by (simp add: combine_j_length)
next
  fix k assume "k < length (combine_j (dataAt data i) w 0 (map Some rs))"
  then have k: "k < length rs" by (simp add: combine_j_length)
  then show "combine_j (dataAt data i) w 0 (map Some rs) ! k =
          map Some (map (\<lambda>k. rs ! k + contribution data weight k i) [0..<length rs]) ! k"
    using assms
    by (auto simp: combine_j_nth contribution_def slotAdd_def slotProduct_def
             split: option.splits)
qed

lemma combine_i_finite:
  assumes "\<forall>i < length weight. weight ! i \<noteq> 0 \<longrightarrow>
             (\<forall>t. dataAt data i = Some t \<longrightarrow> length rs \<le> length t)"
  shows "combine_i data weight i (map Some rs) =
           map Some (map (\<lambda>k. rs ! k +
             sum_list (map (contribution data weight k) [i..<length weight])) [0..<length rs])"
  using assms
proof (induction "length weight - i" arbitrary: i rs)
  case 0
  then show ?case
    by (subst combine_i.simps) (simp add: map_nth)
next
  case (Suc n)
  then have lt: "i < length weight" and n: "n = length weight - (i + 1)" by simp_all
  let ?rs = "map (\<lambda>k. rs ! k + contribution data weight k i) [0..<length rs]"
  have w: "weight ! i \<noteq> 0 \<longrightarrow> (\<forall>t. dataAt data i = Some t \<longrightarrow> length rs \<le> length t)"
    using Suc.prems lt by blast
  have step: "combine_i data weight i (map Some rs) =
                combine_i data weight (i + 1) (map Some ?rs)"
    using lt combine_j_finite [OF w refl] by (subst combine_i.simps) simp
  have "\<forall>i < length weight. weight ! i \<noteq> 0 \<longrightarrow>
             (\<forall>t. dataAt data i = Some t \<longrightarrow> length ?rs \<le> length t)"
    using Suc.prems by simp
  from Suc.hyps(1) [OF n this]
  have "combine_i data weight (i + 1) (map Some ?rs) =
          map Some (map (\<lambda>k. ?rs ! k +
             sum_list (map (contribution data weight k) [i + 1..<length weight]))
             [0..<length ?rs])" .
  moreover have "[i..<length weight] = i # [i + 1..<length weight]"
    using lt by (simp add: upt_conv_Cons)
  ultimately show ?case
    using step by (simp add: add.assoc)
qed

lemma combine_i_length: "length (combine_i data weight i result) = length result"
proof (induction data weight i result rule: combine_i.induct)
  case (1 data weight i result)
  then show ?case
    by (subst combine_i.simps) (simp add: combine_j_length)
qed

text \<open>
  Claim C7. The tuple produced by the combine callback has twelve slots, and when every
  contributing tuple of \<^verbatim>\<open>data\<close> has at least twelve entries, slot \<open>j\<close> is the sum
  over \<open>i\<close> of \<open>weight[i] * data[i][j]\<close>, entries with weight zero or without data
  left out.
\<close>

theorem combinecallback_weighted_sum:
  "length (combinecallback coords data weight) = 12
   \<and> ((\<forall>i < length weight. weight ! i \<noteq> 0 \<longrightarrow>
         (\<forall>t. dataAt data i = Some t \<longrightarrow> 12 \<le> length t)) \<longrightarrow>
       (\<forall>j < 12. combinecallback coords data weight ! j = Some (weightedSum data weight j)))"
proof (intro conjI impI allI)
  show "length (combinecallback coords data weight) = 12"
    by (simp add: combinecallback_def combine_i_length tessyVertexSize_def)
next
  fix j :: nat
  assume widths: "\<forall>i < length weight. weight ! i \<noteq> 0 \<longrightarrow>
         (\<forall>t. dataAt data i = Some t \<longrightarrow> 12 \<le> length t)" and j: "j < 12"
  have zeros: "replicate 12 (Some (0::real)) = map Some (replicate 12 0)" by simp
  have "combine_i data weight 0 (map Some (replicate 12 0)) =
          map Some (map (\<lambda>k. replicate 12 0 ! k +
             sum_list (map (contribution data weight k) [0..<length weight]))
             [0..<length (replicate 12 (0::real))])"
    using widths by (intro combine_i_finite) simp
  then show "combinecallback coords data weight ! j = Some (weightedSum data weight j)"
    using j unfolding combinecallback_def tessyVertexSize_def zeros weightedSum_def
    by (simp only: nth_map length_map length_upt nth_upt length_replicate nth_replicate) simp
qed

theorem combinecallback_weighted_sum_witness:
  "length combineWeight = 4
   \<and> length (the (dataAt combineData 0)) = 12 \<and> dataAt combineData 1 = None
   \<and> length (the (dataAt combineData 2)) = 12 \<and> combineWeight ! 3 = 0
   \<and> length (combinecallback [] combineData combineWeight) = 12
   \<and> combinecallback [] combineData combineWeight ! 0 = Some (5 / 2)
   \<and> combinecallback [] combineData combineWeight ! 11 = Some 8"
proof -
  have widths: "\<forall>i < length combineWeight. combineWeight ! i \<noteq> 0 \<longrightarrow>
         (\<forall>t. dataAt combineData i = Some t \<longrightarrow> 12 \<le> length t)"
    by (auto simp: combineWeight_def combineData_def dataAt_def less_Suc_eq numeral_eq_Suc)
  have sums: "weightedSum combineData combineWeight 0 = 5 / 2"
    "weightedSum combineData combineWeight 11 = 8"
    by (simp_all add: weightedSum_def contribution_def combineWeight_def combineData_def
          dataAt_def upt_rec)
  note cc = combinecallback_weighted_sum [of "[]" combineData combineWeight]
  have slots: "\<forall>j < 12. combinecallback [] combineData combineWeight ! j =
                 Some (weightedSum combineData combineWeight j)"
    using cc widths by blast
  have "combinecallback [] combineData combineWeight ! 0 = Some (5 / 2)"
    using slots [rule_format, of 0] by (simp add: sums)
  moreover have "combinecallback [] combineData combineWeight ! 11 = Some 8"
    using slots [rule_format, of 11] by (simp add: sums)
  moreover have "length combineWeight = 4
     \<and> length (the (dataAt combineData 0)) = 12 \<and> dataAt combineData 1 = None
     \<and> length (the (dataAt combineData 2)) = 12 \<and> combineWeight ! 3 = 0"
    by (simp add: combineWeight_def combineData_def dataAt_def)
  ultimately show ?thesis
    using cc [THEN conjunct1] by blast
qed

section \<open>Properties of computeNormals\<close>

declare facesLoop.simps [simp del]

lemma magSq_nonneg: "0 \<le> magSq v"
  by (cases v) simp

lemma magSq_zero_iff: "magSq v = 0 \<longleftrightarrow> v = Vec 0 0 0"
proof (cases v)
  case (Vec a b c)
  have "a * a + b * b + c * c = 0 \<longleftrightarrow> a = 0 \<and> b = 0 \<and> c = 0"
    by (smt (verit) mult_eq_0_iff zero_le_square)
  with Vec show ?thesis by simp
qed

lemma mag_zero_iff: "mag v = 0 \<longleftrightarrow> v = Vec 0 0 0"
  by (simp add: mag_def magSq_zero_iff)

lemma vnormalize_zero_mag: "mag v = 0 \<Longrightarrow> vnormalize v = Vec 0 0 0"
  by (simp add: vnormalize_def mag_zero_iff)

lemma vcross_self_mult: "vcross v (vmult v k) = Vec 0 0 0"
  by (cases v) (simp add: algebra_simps)

lemma vcross_mult_self: "vcross (vmult v k) v = Vec 0 0 0"
  by (cases v) (simp add: algebra_simps)

lemma vsub_self: "vsub v v = Vec 0 0 0"
  by (cases v) simp

lemma vcross_zero_right: "vcross v (Vec 0 0 0) = Vec 0 0 0"
  by (cases v) simp

lemma vcross_zero_left: "vcross (Vec 0 0 0) v = Vec 0 0 0"
  by (cases v) simp

lemma vcross_self: "vcross v v = Vec 0 0 0"
  by (cases v) simp

lemma degenerate_cross:
  assumes "repeatedVertex vA vB vC \<or> colinearSides vA vB vC"
  shows "vcross (vsub vB vA) (vsub vC vA) = Vec 0 0 0"
  using assms
  by (auto simp: repeatedVertex_def colinearSides_def vsub_self vcross_zero_right
        vcross_zero_left vcross_self vcross_self_mult vcross_mult_self)

lemma getFaceNormal_degenerate:
  assumes "faces g ! f = (a, b, c)"
    and "a < length (vertices g)" and "b < length (vertices g)" and "c < length (vertices g)"
    and "repeatedVertex (vertices g ! a) (vertices g ! b) (vertices g ! c)
         \<or> colinearSides (vertices g ! a) (vertices g ! b) (vertices g ! c)"
  shows "getFaceNormal g f =
           Inr ([faceWarning],
                vcross (vsub (vertices g ! b) (vertices g ! a))
                       (vsub (vertices g ! c) (vertices g ! a)))"
proof -
  have "mag (vcross (vsub (vertices g ! b) (vertices g ! a))
                    (vsub (vertices g ! c) (vertices g ! a))) = 0"
    using degenerate_cross [OF assms(5)] by (simp add: mag_zero_iff)
  then show ?thesis
    using assms(1-4) by (simp add: getFaceNormal_def vertexAt_def Let_def)
qed

lemma getFaceNormal_total:
  assumes "faces g ! f = (a, b, c)"
    and "a < length (vertices g)" and "b < length (vertices g)" and "c < length (vertices g)"
  shows "\<exists>w n. getFaceNormal g f = Inr (w, n)"
  using assms by (simp add: getFaceNormal_def vertexAt_def Let_def)

lemma faceStep_total:
  assumes "faces g ! f = (a, b, c)"
    and "a < length (vertices g)" and "b < length (vertices g)" and "c < length (vertices g)"
    and "length ns = length (vertices g)"
  shows "\<exists>warns' ns'. faceStep g f (warns, ns) = Inr (warns', ns')
           \<and> length ns' = length (vertices g)"
proof -
  obtain w n where "getFaceNormal g f = Inr (w, n)"
    using getFaceNormal_total [OF assms(1-4)] by blast
  then show ?thesis
    using assms by (simp add: faceStep_def addNormalAt_def)
qed

lemma facesLoop_total:
  assumes "facesInRange g" and "length (snd acc) = length (vertices g)"
  shows "\<exists>acc'. facesLoop g f acc = Inr acc'"
  using assms
proof (induction g f acc rule: facesLoop.induct)
  case (1 g f acc)
  show ?case
  proof (cases "f < length (faces g)")
    case False
    then show ?thesis by (subst facesLoop.simps) simp
  next
    case True
    obtain a b c where face: "faces g ! f = (a, b, c)" by (cases "faces g ! f") auto
    have "(a, b, c) \<in> set (faces g)" using True face by (metis nth_mem)
    then have rng: "a < length (vertices g)" "b < length (vertices g)" "c < length (vertices g)"
      using "1.prems"(1) by (auto simp: facesInRange_def)
    obtain warns ns where acc: "acc = (warns, ns)" by (cases acc)
    with "1.prems"(2) have len: "length ns = length (vertices g)" by simp
    obtain warns' ns' where step: "faceStep g f acc = Inr (warns', ns')"
      and len': "length ns' = length (vertices g)"
      using faceStep_total [OF face rng len, of warns] acc by blast
    have "\<exists>acc'. facesLoop g (f + 1) (warns', ns') = Inr acc'"
      using "1.IH" [OF True step "1.prems"(1)] len' by simp
    then show ?thesis
      using True step by (subst facesLoop.simps) simp
  qed
qed

lemma computeNormals_total:
  assumes "facesInRange g"
  shows "\<exists>warns g'. computeNormals g = Inr (warns, g')"
proof -
  obtain acc where "accumulateNormals g = Inr acc"
    unfolding accumulateNormals_def using facesLoop_total [OF assms, of "([], replicate (length (vertices g)) (Vec 0 0 0))" 0]
    by auto
  then show ?thesis
    by (cases acc) (simp add: computeNormals_def)
qed

lemma vec_eq_iff: "v = w \<longleftrightarrow> vx v = vx w \<and> vy v = vy w \<and> vz v = vz w"
  by (cases v; cases w) simp

lemma vadd_sel:
  "vx (vadd v w) = vx v + vx w" "vy (vadd v w) = vy v + vy w" "vz (vadd v w) = vz v + vz w"
  by (cases v; cases w; simp)+

lemma vmult_sel:
  "vx (vmult v k) = vx v * k" "vy (vmult v k) = vy v * k" "vz (vmult v k) = vz v * k"
  by (cases v; simp)+

lemma vadd_assoc: "vadd (vadd a b) c = vadd a (vadd b c)"
  by (simp add: vec_eq_iff vadd_sel)

lemma vadd_zero_left: "vadd (Vec 0 0 0) v = v"
  by (simp add: vec_eq_iff vadd_sel)

lemma getFaceNormal_parts:
  assumes "faces g ! f = (a, b, c)"
    and "a < length (vertices g)" and "b < length (vertices g)" and "c < length (vertices g)"
  shows "getFaceNormal g f = Inr (faceWarns g f, faceVec g f)"
proof -
  obtain w n where "getFaceNormal g f = Inr (w, n)"
    using getFaceNormal_total [OF assms] by blast
  then show ?thesis by (simp add: faceWarns_def faceVec_def)
qed

lemma getFaceNormal_regular:
  assumes "faces g ! f = (a, b, c)"
    and "a < length (vertices g)" and "b < length (vertices g)" and "c < length (vertices g)"
    and "vcross (vsub (vertices g ! b) (vertices g ! a))
                (vsub (vertices g ! c) (vertices g ! a)) \<noteq> Vec 0 0 0"
  shows "getFaceNormal g f =
    Inr ([],
      vmult (vcross (vsub (vertices g ! b) (vertices g ! a))
                    (vsub (vertices g ! c) (vertices g ! a)))
        (arcsin
           (min 1
              (mag (vcross (vsub (vertices g ! b) (vertices g ! a))
                           (vsub (vertices g ! c) (vertices g ! a)))
               / (mag (vsub (vertices g ! b) (vertices g ! a))
                  * mag (vsub (vertices g ! c) (vertices g ! a)))))
         / mag (vcross (vsub (vertices g ! b) (vertices g ! a))
                       (vsub (vertices g ! c) (vertices g ! a)))))"
proof -
  let ?ab = "vsub (vertices g ! b) (vertices g ! a)"
  let ?ac = "vsub (vertices g ! c) (vertices g ! a)"
  have "?ab \<noteq> Vec 0 0 0" "?ac \<noteq> Vec 0 0 0"
    using assms(5) vcross_zero_left vcross_zero_right by metis+
  then have nz: "mag ?ab \<noteq> 0" "mag ?ac \<noteq> 0" "mag (vcross ?ab ?ac) \<noteq> 0"
    using assms(5) by (simp_all add: mag_zero_iff)
  show ?thesis
    using assms(1-4) nz
    by (simp add: getFaceNormal_def vertexAt_def Let_def min_def)
qed

lemma three_updates:
  assumes "a < length ns" and "b < length ns" and "c < length ns"
    and "ns0 = ns[a := vadd (ns ! a) n]"
    and "ns1 = ns0[b := vadd (ns0 ! b) n]"
    and "ns2 = ns1[c := vadd (ns1 ! c) n]"
  shows "ns2 = map (\<lambda>k. vadd (ns ! k) (vmult n (real (hits k (a, b, c))))) [0..<length ns]"
proof (rule nth_equalityI)
  show "length ns2 =
          length (map (\<lambda>k. vadd (ns ! k) (vmult n (real (hits k (a, b, c))))) [0..<length ns])"
    using assms(4-6) by simp
next
  fix k
  assume "k < length ns2"
  then have k: "k < length ns" using assms(4-6) by simp
  show "ns2 ! k =
          map (\<lambda>k. vadd (ns ! k) (vmult n (real (hits k (a, b, c))))) [0..<length ns] ! k"
    using k assms(1-3) unfolding assms(4-6)
    by (simp add: nth_list_update vec_eq_iff vadd_sel vmult_sel algebra_simps)
qed

lemma faceStep_spec:
  assumes "faces g ! f = (a, b, c)"
    and "a < length (vertices g)" and "b < length (vertices g)" and "c < length (vertices g)"
    and "length ns = length (vertices g)"
  shows "faceStep g f (warns, ns) =
           Inr (warns @ faceWarns g f,
                map (\<lambda>k. vadd (ns ! k) (vmult (faceVec g f) (real (hits k (faces g ! f)))))
                  [0..<length ns])"
proof -
  let ?n = "faceVec g f"
  let ?ns0 = "ns[a := vadd (ns ! a) ?n]"
  let ?ns1 = "?ns0[b := vadd (?ns0 ! b) ?n]"
  let ?ns2 = "?ns1[c := vadd (?ns1 ! c) ?n]"
  have "faceStep g f (warns, ns) = Inr (warns @ faceWarns g f, ?ns2)"
    using assms getFaceNormal_parts [OF assms(1-4)]
    by (simp add: faceStep_def addNormalAt_def)
  moreover have "?ns2 =
      map (\<lambda>k. vadd (ns ! k) (vmult ?n (real (hits k (a, b, c))))) [0..<length ns]"
    using assms(2-5) by (intro three_updates [of a ns b c]) simp_all
  ultimately show ?thesis by (simp add: assms(1))
qed

lemma facesLoop_spec:
  assumes "facesInRange g" and "length ns = length (vertices g)"
  shows "facesLoop g f (warns, ns) =
     Inr (warns @ concat (map (faceWarns g) [f..<length (faces g)]),
          map (\<lambda>k. vadd (ns ! k)
                 (vsum (map (\<lambda>f. vmult (faceVec g f) (real (hits k (faces g ! f))))
                          [f..<length (faces g)])))
            [0..<length ns])"
  using assms(2)
proof (induction "length (faces g) - f" arbitrary: f warns ns)
  case 0
  then have "[f..<length (faces g)] = []" by simp
  moreover have "map (\<lambda>k. vadd (ns ! k) (Vec 0 0 0)) [0..<length ns] = ns"
    by (rule nth_equalityI) (simp_all add: vec_eq_iff vadd_sel)
  ultimately show ?case
    using 0 by (subst facesLoop.simps) simp
next
  case (Suc n)
  then have lt: "f < length (faces g)" and n: "n = length (faces g) - (f + 1)" by simp_all
  obtain a b c where face: "faces g ! f = (a, b, c)" by (cases "faces g ! f") auto
  have "(a, b, c) \<in> set (faces g)" using lt face by (metis nth_mem)
  then have rng: "a < length (vertices g)" "b < length (vertices g)" "c < length (vertices g)"
    using assms(1) by (auto simp: facesInRange_def)
  let ?ns = "map (\<lambda>k. vadd (ns ! k) (vmult (faceVec g f) (real (hits k (faces g ! f)))))
               [0..<length ns]"
  have step: "faceStep g f (warns, ns) = Inr (warns @ faceWarns g f, ?ns)"
    using faceStep_spec [OF face rng Suc.prems] .
  have len: "length ?ns = length (vertices g)" using Suc.prems by simp
  have rest: "facesLoop g (f + 1) (warns @ faceWarns g f, ?ns) =
     Inr ((warns @ faceWarns g f) @ concat (map (faceWarns g) [f + 1..<length (faces g)]),
          map (\<lambda>k. vadd (?ns ! k)
                 (vsum (map (\<lambda>f. vmult (faceVec g f) (real (hits k (faces g ! f))))
                          [f + 1..<length (faces g)])))
            [0..<length ?ns])"
    using Suc.hyps(1) [OF n len] .
  have upt: "[f..<length (faces g)] = f # [f + 1..<length (faces g)]"
    using lt by (simp add: upt_conv_Cons)
  have "facesLoop g f (warns, ns) = facesLoop g (f + 1) (warns @ faceWarns g f, ?ns)"
    using lt step by (subst facesLoop.simps) simp
  then show ?case
    unfolding rest upt by (simp add: vadd_assoc)
qed

lemma accumulateNormals_spec:
  assumes "facesInRange g"
  shows "accumulateNormals g =
     Inr (concat (map (faceWarns g) [0..<length (faces g)]),
          map (accSpec g) [0..<length (vertices g)])"
  unfolding accumulateNormals_def
  using facesLoop_spec [OF assms, of "replicate (length (vertices g)) (Vec 0 0 0)" 0 "[]"]
  by (simp add: accSpec_def vadd_zero_left)

text \<open>
  Claim C6. On a geometry whose faces index into its vertices, \<^verbatim>\<open>computeNormals\<close>
  returns and does not throw: the console holds the warnings of the faces in order, and
  the normal of vertex \<open>k\<close> is the normalized sum of the contributions of the faces,
  each taken once for every corner that is \<open>k\<close>; a sum of magnitude zero stays the zero
  vector. For one face, \<^verbatim>\<open>_getFaceNormal\<close> writes one warning and returns the raw cross
  product \<open>(B - A) \<times> (C - A)\<close> when the face has a repeated vertex or colinear sides (in
  exact arithmetic that product is the zero vector), and writes nothing and returns the
  cross product scaled by \<open>asin(min(sinAlpha, 1)) / |n|\<close> otherwise; the step of the face
  loop adds what \<^verbatim>\<open>_getFaceNormal\<close> returns to the accumulators of the three corners,
  one after the other.
\<close>

theorem computeNormals_degenerate:
  "(facesInRange g \<longrightarrow>
      computeNormals g =
        Inr (concat (map (faceWarns g) [0..<length (faces g)]),
             g\<lparr>vertexNormals :=
                 map (\<lambda>k. vnormalize (accSpec g k)) [0..<length (vertices g)]\<rparr>)
      \<and> (\<forall>k < length (vertices g). mag (accSpec g k) = 0 \<longrightarrow>
            vnormalize (accSpec g k) = Vec 0 0 0))
   \<and> (faces g ! f = (a, b, c)
       \<and> a < length (vertices g) \<and> b < length (vertices g) \<and> c < length (vertices g) \<longrightarrow>
       getFaceNormal g f = Inr (faceWarns g f, faceVec g f)
       \<and> (repeatedVertex (vertices g ! a) (vertices g ! b) (vertices g ! c)
          \<or> colinearSides (vertices g ! a) (vertices g ! b) (vertices g ! c) \<longrightarrow>
            faceWarns g f = [faceWarning]
            \<and> faceVec g f = vcross (vsub (vertices g ! b) (vertices g ! a))
                                   (vsub (vertices g ! c) (vertices g ! a)))
       \<and> (vcross (vsub (vertices g ! b) (vertices g ! a))
                 (vsub (vertices g ! c) (vertices g ! a)) \<noteq> Vec 0 0 0 \<longrightarrow>
            faceWarns g f = []
            \<and> faceVec g f =
                vmult (vcross (vsub (vertices g ! b) (vertices g ! a))
                              (vsub (vertices g ! c) (vertices g ! a)))
                  (arcsin
                     (min 1
                        (mag (vcross (vsub (vertices g ! b) (vertices g ! a))
                                     (vsub (vertices g ! c) (vertices g ! a)))
                         / (mag (vsub (vertices g ! b) (vertices g ! a))
                            * mag (vsub (vertices g ! c) (vertices g ! a)))))
                   / mag (vcross (vsub (vertices g ! b) (vertices g ! a))
                                 (vsub (vertices g ! c) (vertices g ! a)))))
       \<and> (length ns = length (vertices g) \<longrightarrow>
            (let n = faceVec g f;
                 ns0 = ns[a := vadd (ns ! a) n];
                 ns1 = ns0[b := vadd (ns0 ! b) n];
                 ns2 = ns1[c := vadd (ns1 ! c) n]
             in faceStep g f (warns, ns) = Inr (warns @ faceWarns g f, ns2))))"
proof (intro conjI impI)
  assume rng: "facesInRange g"
  show "computeNormals g =
        Inr (concat (map (faceWarns g) [0..<length (faces g)]),
             g\<lparr>vertexNormals :=
                 map (\<lambda>k. vnormalize (accSpec g k)) [0..<length (vertices g)]\<rparr>)"
    by (simp add: computeNormals_def accumulateNormals_spec [OF rng] comp_def)
  show "\<forall>k < length (vertices g). mag (accSpec g k) = 0 \<longrightarrow>
            vnormalize (accSpec g k) = Vec 0 0 0"
    by (simp add: vnormalize_zero_mag)
next
  assume h: "faces g ! f = (a, b, c)
       \<and> a < length (vertices g) \<and> b < length (vertices g) \<and> c < length (vertices g)"
  then have face: "faces g ! f = (a, b, c)"
    and r: "a < length (vertices g)" "b < length (vertices g)" "c < length (vertices g)"
    by simp_all
  show parts: "getFaceNormal g f = Inr (faceWarns g f, faceVec g f)"
    using getFaceNormal_parts [OF face r] .
  {
    assume "repeatedVertex (vertices g ! a) (vertices g ! b) (vertices g ! c)
          \<or> colinearSides (vertices g ! a) (vertices g ! b) (vertices g ! c)"
    from getFaceNormal_degenerate [OF face r this]
    show "faceWarns g f = [faceWarning]"
      and "faceVec g f = vcross (vsub (vertices g ! b) (vertices g ! a))
                                   (vsub (vertices g ! c) (vertices g ! a))"
      by (simp_all add: faceWarns_def faceVec_def)
  }
  {
    assume "vcross (vsub (vertices g ! b) (vertices g ! a))
                 (vsub (vertices g ! c) (vertices g ! a)) \<noteq> Vec 0 0 0"
    from getFaceNormal_regular [OF face r this]
    show "faceWarns g f = []"
      and "faceVec g f =
                vmult (vcross (vsub (vertices g ! b) (vertices g ! a))
                              (vsub (vertices g ! c) (vertices g ! a)))
                  (arcsin
                     (min 1
                        (mag (vcross (vsub (vertices g ! b) (vertices g ! a))
                                     (vsub (vertices g ! c) (vertices g ! a)))
                         / (mag (vsub (vertices g ! b) (vertices g ! a))
                            * mag (vsub (vertices g ! c) (vertices g ! a)))))
                   / mag (vcross (vsub (vertices g ! b) (vertices g ! a))
                                 (vsub (vertices g ! c) (vertices g ! a))))"
      by (simp_all add: faceWarns_def faceVec_def)
  }
  {
    assume "length ns = length (vertices g)"
    then show "let n = faceVec g f;
                 ns0 = ns[a := vadd (ns ! a) n];
                 ns1 = ns0[b := vadd (ns0 ! b) n];
                 ns2 = ns1[c := vadd (ns1 ! c) n]
             in faceStep g f (warns, ns) = Inr (warns @ faceWarns g f, ns2)"
      using face r parts by (simp add: faceStep_def addNormalAt_def Let_def)
  }
qed

theorem computeNormals_degenerate_witness:
  "facesInRange wedge
   \<and> colinearSides (vertices wedge ! 0) (vertices wedge ! 1) (vertices wedge ! 3)
   \<and> getFaceNormal wedge 1 = Inr ([faceWarning], Vec 0 0 0)
   \<and> getFaceNormal wedge 0 = Inr ([], Vec 0 0 (pi / 2))
   \<and> faceStep wedge 0 ([], [Vec 0 0 0, Vec 0 0 0, Vec 0 0 0, Vec 0 0 0])
       = Inr ([], [Vec 0 0 (pi / 2), Vec 0 0 (pi / 2), Vec 0 0 (pi / 2), Vec 0 0 0])
   \<and> faceStep wedge 1 ([], [Vec 0 0 (pi / 2), Vec 0 0 (pi / 2), Vec 0 0 (pi / 2), Vec 0 0 0])
       = Inr ([faceWarning],
              [Vec 0 0 (pi / 2), Vec 0 0 (pi / 2), Vec 0 0 (pi / 2), Vec 0 0 0])
   \<and> accSpec wedge 3 = Vec 0 0 0
   \<and> computeNormals wedge =
       Inr ([faceWarning],
            wedge\<lparr>vertexNormals := [Vec 0 0 1, Vec 0 0 1, Vec 0 0 1, Vec 0 0 0]\<rparr>)"
proof -
  have rng: "facesInRange wedge"
    by (simp add: facesInRange_def wedge_def)
  have col: "colinearSides (vertices wedge ! 0) (vertices wedge ! 1) (vertices wedge ! 3)"
    by (simp add: colinearSides_def wedge_def)
  have f0: "faces wedge ! 0 = (0, Suc 0, 2)
       \<and> 0 < length (vertices wedge) \<and> Suc 0 < length (vertices wedge)
       \<and> 2 < length (vertices wedge)"
    by (simp add: wedge_def)
  have f1: "faces wedge ! Suc 0 = (0, Suc 0, 3)
       \<and> 0 < length (vertices wedge) \<and> Suc 0 < length (vertices wedge)
       \<and> 3 < length (vertices wedge)"
    by (simp add: wedge_def)
  have cross0: "vcross (vsub (vertices wedge ! Suc 0) (vertices wedge ! 0))
                 (vsub (vertices wedge ! 2) (vertices wedge ! 0)) = Vec 0 0 1"
    by (simp add: wedge_def)
  have mags: "mag (Vec 0 0 1) = 1" "mag (vsub (vertices wedge ! Suc 0) (vertices wedge ! 0)) = 1"
     "mag (vsub (vertices wedge ! 2) (vertices wedge ! 0)) = 1"
    by (simp_all add: wedge_def mag_def)
  note t0 = computeNormals_degenerate
    [of wedge 0 0 "Suc 0" 2 "[Vec 0 0 0, Vec 0 0 0, Vec 0 0 0, Vec 0 0 0]" "[]",
     THEN conjunct2, rule_format, OF f0]
  note t1 = computeNormals_degenerate
    [of wedge "Suc 0" 0 "Suc 0" 3
        "[Vec 0 0 (pi / 2), Vec 0 0 (pi / 2), Vec 0 0 (pi / 2), Vec 0 0 0]" "[]",
     THEN conjunct2, rule_format, OF f1]
  have w0: "faceWarns wedge 0 = []" and v0: "faceVec wedge 0 = Vec 0 0 (pi / 2)"
    using t0 [THEN conjunct2, THEN conjunct2, THEN conjunct1]
    by (simp_all add: cross0 mags)
  have col': "colinearSides (vertices wedge ! 0) (vertices wedge ! Suc 0) (vertices wedge ! 3)"
    using col by simp
  have w1: "faceWarns wedge (Suc 0) = [faceWarning]"
    and v1: "faceVec wedge (Suc 0) = Vec 0 0 0"
    using t1 [THEN conjunct2, THEN conjunct1, rule_format, OF disjI2, OF col']
    by (simp_all add: wedge_def)
  have g1: "getFaceNormal wedge 1 = Inr ([faceWarning], Vec 0 0 0)"
    using t1 [THEN conjunct1] by (simp add: w1 v1)
  have g0: "getFaceNormal wedge 0 = Inr ([], Vec 0 0 (pi / 2))"
    using t0 [THEN conjunct1] by (simp add: w0 v0)
  have len: "length [Vec 0 0 0, Vec 0 0 0, Vec 0 0 0, Vec 0 0 0] = length (vertices wedge)"
    and len': "length [Vec 0 0 (pi / 2), Vec 0 0 (pi / 2), Vec 0 0 (pi / 2), Vec 0 0 0]
               = length (vertices wedge)"
    by (simp_all add: wedge_def)
  have s0: "faceStep wedge 0 ([], [Vec 0 0 0, Vec 0 0 0, Vec 0 0 0, Vec 0 0 0])
       = Inr ([], [Vec 0 0 (pi / 2), Vec 0 0 (pi / 2), Vec 0 0 (pi / 2), Vec 0 0 0])"
    using t0 [THEN conjunct2, THEN conjunct2, THEN conjunct2, rule_format, OF len]
    by (simp add: w0 v0 Let_def)
  have s1: "faceStep wedge 1 ([], [Vec 0 0 (pi / 2), Vec 0 0 (pi / 2), Vec 0 0 (pi / 2), Vec 0 0 0])
       = Inr ([faceWarning],
              [Vec 0 0 (pi / 2), Vec 0 0 (pi / 2), Vec 0 0 (pi / 2), Vec 0 0 0])"
    using t1 [THEN conjunct2, THEN conjunct2, THEN conjunct2, rule_format, OF len']
    by (simp add: w1 v1 Let_def)
  have upt: "[0..<length (faces wedge)] = [0, Suc 0]"
    "[0..<length (vertices wedge)] = [0, Suc 0, 2, 3]"
    by (simp_all add: wedge_def upt_rec)
  have fs: "faces wedge ! 0 = (0, Suc 0, 2)" "faces wedge ! Suc 0 = (0, Suc 0, 3)"
    by (simp_all add: wedge_def)
  have acc: "accSpec wedge 0 = Vec 0 0 (pi / 2)" "accSpec wedge (Suc 0) = Vec 0 0 (pi / 2)"
    "accSpec wedge 2 = Vec 0 0 (pi / 2)" "accSpec wedge 3 = Vec 0 0 0"
    by (simp_all add: accSpec_def upt fs v0 v1)
  have e: "pi * pi / 4 = (pi / 2)\<^sup>2"
    by (simp add: power2_eq_square)
  have sq: "sqrt (pi * pi / 4) = pi / 2"
    unfolding e by simp
  have nrm: "vnormalize (Vec 0 0 (pi / 2)) = Vec 0 0 1"
    "vnormalize (Vec 0 0 0) = Vec 0 0 0"
    by (simp_all add: vnormalize_def mag_def sq)
  have cn: "computeNormals wedge =
       Inr ([faceWarning],
            wedge\<lparr>vertexNormals := [Vec 0 0 1, Vec 0 0 1, Vec 0 0 1, Vec 0 0 0]\<rparr>)"
    using computeNormals_degenerate [of wedge, THEN conjunct1, rule_format, OF rng,
        THEN conjunct1]
    by (simp add: upt w0 w1 acc nrm)
  from rng col g1 g0 s0 s1 acc(4) cn show ?thesis by (intro conjI)
qed

section \<open>Properties of normalize\<close>

lemma rounding_zero:
  assumes "rounding u fl"
  shows "fl 0 = 0"
proof -
  have "\<bar>fl 0 - 0\<bar> \<le> u * \<bar>0\<bar>"
    using assms unfolding rounding_def by blast
  then show ?thesis by simp
qed

lemma rounding_mono:
  assumes "rounding u fl" and "x \<le> y"
  shows "fl x \<le> fl y"
  using assms unfolding rounding_def by blast

lemma rounding_pos:
  assumes "rounding u fl" and "0 \<le> x"
  shows "(1 - u) * x \<le> fl x" and "fl x \<le> (1 + u) * x" and "0 \<le> fl x"
proof -
  have "\<bar>fl x - x\<bar> \<le> u * \<bar>x\<bar>"
    using assms(1) unfolding rounding_def by blast
  then have h: "\<bar>fl x - x\<bar> \<le> u * x"
    using assms(2) by simp
  show "(1 - u) * x \<le> fl x" using h by (simp add: algebra_simps abs_le_iff)
  show "fl x \<le> (1 + u) * x" using h by (simp add: algebra_simps abs_le_iff)
  show "0 \<le> fl x"
    using rounding_mono [OF assms(1) assms(2)] rounding_zero [OF assms(1)] by simp
qed

lemma rounding_neg:
  assumes "rounding u fl" and "x \<le> 0"
  shows "(1 + u) * x \<le> fl x" and "fl x \<le> (1 - u) * x" and "fl x \<le> 0"
proof -
  have "\<bar>fl x - x\<bar> \<le> u * \<bar>x\<bar>"
    using assms(1) unfolding rounding_def by blast
  then have h: "\<bar>fl x - x\<bar> \<le> u * (- x)"
    using assms(2) by simp
  show "(1 + u) * x \<le> fl x" using h by (simp add: algebra_simps abs_le_iff)
  show "fl x \<le> (1 - u) * x" using h by (simp add: algebra_simps abs_le_iff)
  show "fl x \<le> 0"
    using rounding_mono [OF assms(1) assms(2)] rounding_zero [OF assms(1)] by simp
qed

lemma rounding_abs:
  assumes "rounding u fl"
  shows "\<bar>fl x - x\<bar> \<le> u * \<bar>x\<bar>" and "0 \<le> u"
  using assms unfolding rounding_def by blast+

text \<open>One coordinate after \<^verbatim>\<open>sub\<close> and \<^verbatim>\<open>mult\<close>, on either side of the center.\<close>

lemma axisMap_mono:
  assumes "rounding u fl" and "0 \<le> s" and "x \<le> y"
  shows "axisMap fl c s x \<le> axisMap fl c s y"
proof -
  have "fl (x - c) \<le> fl (y - c)"
    using assms(3) by (intro rounding_mono [OF assms(1)]) simp
  then have "fl (x - c) * s \<le> fl (y - c) * s"
    using assms(2) by (rule mult_right_mono)
  then show ?thesis
    unfolding axisMap_def by (rule rounding_mono [OF assms(1)])
qed

lemma axisMap_above:
  assumes r: "rounding u fl" and u: "u \<le> 1" and s: "0 \<le> s" and x: "c \<le> x"
  shows "(1 - u) * (1 - u) * (s * (x - c)) \<le> axisMap fl c s x"
    and "axisMap fl c s x \<le> (1 + u) * (1 + u) * (s * (x - c))"
proof -
  have u0: "0 \<le> u" using rounding_abs(2) [OF r] .
  have d0: "0 \<le> x - c" using x by simp
  have d: "(1 - u) * (x - c) \<le> fl (x - c)" "fl (x - c) \<le> (1 + u) * (x - c)"
    "0 \<le> fl (x - c)"
    using rounding_pos [OF r d0] by simp_all
  have p0: "0 \<le> fl (x - c) * s" using d(3) s by simp
  have p: "(1 - u) * (fl (x - c) * s) \<le> fl (fl (x - c) * s)"
    "fl (fl (x - c) * s) \<le> (1 + u) * (fl (x - c) * s)"
    using rounding_pos [OF r p0] by simp_all
  have "(1 - u) * (x - c) * s \<le> fl (x - c) * s"
    using d(1) s by (rule mult_right_mono)
  then have "(1 - u) * ((1 - u) * (x - c) * s) \<le> (1 - u) * (fl (x - c) * s)"
    using u by (intro mult_left_mono) simp_all
  with p(1) show "(1 - u) * (1 - u) * (s * (x - c)) \<le> axisMap fl c s x"
    unfolding axisMap_def by (simp add: mult_ac)
  have "fl (x - c) * s \<le> (1 + u) * (x - c) * s"
    using d(2) s by (rule mult_right_mono)
  then have "(1 + u) * (fl (x - c) * s) \<le> (1 + u) * ((1 + u) * (x - c) * s)"
    using u0 by (intro mult_left_mono) simp_all
  with p(2) show "axisMap fl c s x \<le> (1 + u) * (1 + u) * (s * (x - c))"
    unfolding axisMap_def by (simp add: mult_ac)
qed

lemma axisMap_below:
  assumes r: "rounding u fl" and u: "u \<le> 1" and s: "0 \<le> s" and x: "x \<le> c"
  shows "(1 + u) * (1 + u) * (s * (x - c)) \<le> axisMap fl c s x"
    and "axisMap fl c s x \<le> (1 - u) * (1 - u) * (s * (x - c))"
proof -
  have u0: "0 \<le> u" using rounding_abs(2) [OF r] .
  have d0: "x - c \<le> 0" using x by simp
  have d: "(1 + u) * (x - c) \<le> fl (x - c)" "fl (x - c) \<le> (1 - u) * (x - c)"
    "fl (x - c) \<le> 0"
    using rounding_neg [OF r d0] by simp_all
  have p0: "fl (x - c) * s \<le> 0" using d(3) s by (simp add: mult_nonpos_nonneg)
  have p: "(1 + u) * (fl (x - c) * s) \<le> fl (fl (x - c) * s)"
    "fl (fl (x - c) * s) \<le> (1 - u) * (fl (x - c) * s)"
    using rounding_neg [OF r p0] by simp_all
  have "(1 + u) * (x - c) * s \<le> fl (x - c) * s"
    using d(1) s by (rule mult_right_mono)
  then have "(1 + u) * ((1 + u) * (x - c) * s) \<le> (1 + u) * (fl (x - c) * s)"
    using u0 by (intro mult_left_mono) simp_all
  with p(1) show "(1 + u) * (1 + u) * (s * (x - c)) \<le> axisMap fl c s x"
    unfolding axisMap_def by (simp add: mult_ac)
  have "fl (x - c) * s \<le> (1 - u) * (x - c) * s"
    using d(2) s by (rule mult_right_mono)
  then have "(1 - u) * (fl (x - c) * s) \<le> (1 - u) * ((1 - u) * (x - c) * s)"
    using u by (intro mult_left_mono) simp_all
  with p(2) show "axisMap fl c s x \<le> (1 - u) * (1 - u) * (s * (x - c))"
    unfolding axisMap_def by (simp add: mult_ac)
qed

text \<open>The center that \<^verbatim>\<open>lerp\<close> computes lies between the two corners.\<close>

lemma lerpR_half:
  assumes r: "rounding u fl" and u: "u \<le> 1 / 4"
    and fM: "fl M = M" and fm: "fl m = m" and mM: "m \<le> M"
  shows "m \<le> lerpR fl M m (1 / 2)" and "lerpR fl M m (1 / 2) \<le> M"
    and "\<bar>M + m - 2 * lerpR fl M m (1 / 2)\<bar> \<le> u * (2 * max \<bar>M\<bar> \<bar>m\<bar> + 3 * (M - m))"
proof -
  define w where "w = m - M"
  define h where "h = fl (fl w * (1 / 2))"
  define y where "y = M + h"
  have c: "lerpR fl M m (1 / 2) = fl y"
    by (simp add: lerpR_def y_def h_def w_def)
  have u0: "0 \<le> u" using rounding_abs(2) [OF r] .
  have w0: "w \<le> 0" using mM by (simp add: w_def)
  have f1: "(1 + u) * w \<le> fl w" "fl w \<le> (1 - u) * w" "fl w \<le> 0"
    using rounding_neg [OF r w0] by simp_all
  have g0: "fl w * (1 / 2) \<le> 0" using f1(3) by simp
  have h1: "(1 + u) * (fl w * (1 / 2)) \<le> h" "h \<le> (1 - u) * (fl w * (1 / 2))" "h \<le> 0"
    using rounding_neg [OF r g0] by (simp_all add: h_def)
  have uw: "u * w \<le> 0" using u0 w0 by (simp add: mult_nonneg_nonpos)
  have uuw: "u * w / 4 \<le> u * (u * w)"
  proof -
    have "(1 / 4) * (u * w) \<le> u * (u * w)"
      using u uw by (rule mult_right_mono_neg)
    then show ?thesis by simp
  qed
  have uuw0: "u * (u * w) \<le> 0" using u0 uw by (simp add: mult_nonneg_nonpos)
  have lo: "(1 + u) * ((1 + u) * w) / 2 \<le> h"
  proof -
    have "(1 + u) * ((1 + u) * w) \<le> (1 + u) * fl w"
      using f1(1) u0 by (intro mult_left_mono) simp_all
    then show ?thesis using h1(1) by simp
  qed
  have hi: "h \<le> (1 - u) * ((1 - u) * w) / 2"
  proof -
    have "(1 - u) * fl w \<le> (1 - u) * ((1 - u) * w)"
      using f1(2) u by (intro mult_left_mono) simp_all
    then show ?thesis using h1(2) by simp
  qed
  have lo': "w / 2 + u * w + u * (u * w) / 2 \<le> h"
    using lo by (simp add: algebra_simps)
  have hi': "h \<le> w / 2 - u * w + u * (u * w) / 2"
    using hi by (simp add: algebra_simps)
  have uw4: "w / 4 \<le> u * w"
  proof -
    have "(1 / 4) * w \<le> u * w"
      using u w0 by (rule mult_right_mono_neg)
    then show ?thesis by simp
  qed
  have hw: "w \<le> h"
    using lo' uuw uw4 w0 by linarith
  have ym: "m \<le> y" using hw by (simp add: y_def w_def)
  have yM: "y \<le> M" using h1(3) by (simp add: y_def)
  show "m \<le> lerpR fl M m (1 / 2)"
    using rounding_mono [OF r ym] fm c by simp
  show "lerpR fl M m (1 / 2) \<le> M"
    using rounding_mono [OF r yM] fM c by simp
  have yabs: "\<bar>y\<bar> \<le> max \<bar>M\<bar> \<bar>m\<bar>"
    using ym yM by linarith
  have "\<bar>fl y - y\<bar> \<le> u * \<bar>y\<bar>" using rounding_abs(1) [OF r] .
  also have "u * \<bar>y\<bar> \<le> u * max \<bar>M\<bar> \<bar>m\<bar>"
    using yabs u0 by (rule mult_left_mono)
  finally have cy: "\<bar>fl y - y\<bar> \<le> u * max \<bar>M\<bar> \<bar>m\<bar>" .
  have hh: "\<bar>h - w / 2\<bar> \<le> - (9 / 8) * (u * w)"
    using lo' hi' uuw uuw0 uw by linarith
  define p where "p = fl y - y"
  define q where "q = h - w / 2"
  have e: "M + m - 2 * fl y = - 2 * p - 2 * q"
    by (simp add: p_def q_def y_def w_def field_simps)
  have pq: "\<bar>p\<bar> \<le> u * max \<bar>M\<bar> \<bar>m\<bar>" "\<bar>q\<bar> \<le> - (9 / 8) * (u * w)"
    using cy hh by (simp_all add: p_def q_def)
  have "\<bar>- 2 * p - 2 * q\<bar> \<le> 2 * (u * max \<bar>M\<bar> \<bar>m\<bar>) + 2 * (- (9 / 8) * (u * w))"
    using pq by linarith
  also have "\<dots> \<le> 2 * (u * max \<bar>M\<bar> \<bar>m\<bar>) + 3 * (- (u * w))"
    using uw by linarith
  also have "\<dots> = u * (2 * max \<bar>M\<bar> \<bar>m\<bar> + 3 * (M - m))"
    by (simp add: w_def algebra_simps)
  finally show "\<bar>M + m - 2 * lerpR fl M m (1 / 2)\<bar>
      \<le> u * (2 * max \<bar>M\<bar> \<bar>m\<bar> + 3 * (M - m))"
    by (simp add: c e)
qed

lemma Max_insert_max:
  fixes a b :: real
  assumes "finite A"
  shows "Max (insert (max a b) A) = Max (insert a (insert b A))"
proof (cases "A = {}")
  case True
  then show ?thesis by simp
next
  case False
  with assms show ?thesis by (simp add: max.assoc)
qed

lemma Min_insert_min:
  fixes a b :: real
  assumes "finite A"
  shows "Min (insert (min a b) A) = Min (insert a (insert b A))"
proof (cases "A = {}")
  case True
  then show ?thesis by simp
next
  case False
  with assms show ?thesis by (simp add: min.assoc)
qed

lemma boundsLoop_eq:
  "boundsLoop vs (mx, mn) =
     (Vec (Max (insert (vx mx) (vx ` set vs))) (Max (insert (vy mx) (vy ` set vs)))
          (Max (insert (vz mx) (vz ` set vs))),
      Vec (Min (insert (vx mn) (vx ` set vs))) (Min (insert (vy mn) (vy ` set vs)))
          (Min (insert (vz mn) (vz ` set vs))))"
proof (induction vs arbitrary: mx mn)
  case Nil
  then show ?case by simp
next
  case (Cons v vs)
  show ?case
    by (simp add: Cons.IH Max_insert_max Min_insert_min del: Max_insert Min_insert)
qed

lemma boundsLoop_box:
  assumes "vs \<noteq> []"
  shows "boundsLoop vs (vs ! 0, vs ! 0) =
     (Vec (boxMax vx vs) (boxMax vy vs) (boxMax vz vs),
      Vec (boxMin vx vs) (boxMin vy vs) (boxMin vz vs))"
proof -
  have "vs ! 0 \<in> set vs" using assms by simp
  then have "\<And>axis :: vec \<Rightarrow> real. insert (axis (vs ! 0)) (axis ` set vs) = axis ` set vs"
    by blast
  then show ?thesis
    by (simp add: boundsLoop_eq boxMax_def boxMin_def)
qed

lemma distinct_points_extent:
  assumes "v \<in> set vs" and "w \<in> set vs" and "v \<noteq> w"
  shows "0 < boxLongest vs"
proof -
  have ax: "\<And>axis :: vec \<Rightarrow> real. axis v < axis w \<or> axis w < axis v \<Longrightarrow>
              0 < boxMax axis vs - boxMin axis vs"
  proof -
    fix axis :: "vec \<Rightarrow> real"
    assume d: "axis v < axis w \<or> axis w < axis v"
    have "axis v \<le> boxMax axis vs" "axis w \<le> boxMax axis vs"
      "boxMin axis vs \<le> axis v" "boxMin axis vs \<le> axis w"
      using assms(1,2) by (simp_all add: boxMax_def boxMin_def)
    with d show "0 < boxMax axis vs - boxMin axis vs" by linarith
  qed
  have "vx v \<noteq> vx w \<or> vy v \<noteq> vy w \<or> vz v \<noteq> vz w"
    using assms(3) by (cases v; cases w) auto
  then consider "vx v < vx w \<or> vx w < vx v" | "vy v < vy w \<or> vy w < vy v"
    | "vz v < vz w \<or> vz w < vz v"
    by linarith
  then show ?thesis
  proof cases
    case 1
    from ax [OF this] show ?thesis by (simp add: boxLongest_def less_max_iff_disj)
  next
    case 2
    from ax [OF this] show ?thesis by (simp add: boxLongest_def less_max_iff_disj)
  next
    case 3
    from ax [OF this] show ?thesis by (simp add: boxLongest_def less_max_iff_disj)
  qed
qed

lemma box_order:
  fixes axis :: "vec \<Rightarrow> real"
  assumes "vs \<noteq> []"
  shows "boxMin axis vs \<le> boxMax axis vs"
proof -
  have "vs ! 0 \<in> set vs" using assms by simp
  then have "boxMin axis vs \<le> axis (vs ! 0)" "axis (vs ! 0) \<le> boxMax axis vs"
    by (simp_all add: boxMax_def boxMin_def)
  then show ?thesis by linarith
qed

lemma box_attained:
  fixes axis :: "vec \<Rightarrow> real"
  assumes "vs \<noteq> []"
  shows "\<exists>v \<in> set vs. axis v = boxMax axis vs" and "\<exists>v \<in> set vs. axis v = boxMin axis vs"
proof -
  have fin: "finite (axis ` set vs)" "axis ` set vs \<noteq> {}"
    using assms by simp_all
  from Max_in [OF fin] show "\<exists>v \<in> set vs. axis v = boxMax axis vs"
    by (auto simp: boxMax_def)
  from Min_in [OF fin] show "\<exists>v \<in> set vs. axis v = boxMin axis vs"
    by (auto simp: boxMin_def)
qed

lemma box_bounds:
  fixes axis :: "vec \<Rightarrow> real"
  assumes "v \<in> set vs"
  shows "boxMin axis vs \<le> axis v" and "axis v \<le> boxMax axis vs"
  using assms by (simp_all add: boxMax_def boxMin_def)

lemma box_map_mono:
  fixes axis :: "vec \<Rightarrow> real"
  assumes "vs \<noteq> []" and "\<And>x y. x \<le> y \<Longrightarrow> T x \<le> T y"
    and "\<And>v. v \<in> set vs \<Longrightarrow> axis (f v) = T (axis v)"
  shows "boxMax axis (map f vs) = T (boxMax axis vs)"
    and "boxMin axis (map f vs) = T (boxMin axis vs)"
proof -
  have m: "mono T" using assms(2) by (intro monoI)
  have im: "axis ` set (map f vs) = T ` (axis ` set vs)"
    using assms(3) by (auto simp: image_iff)
  have "T (Max (axis ` set vs)) = Max (T ` (axis ` set vs))"
    using assms(1) by (intro mono_Max_commute [OF m]) simp_all
  then show "boxMax axis (map f vs) = T (boxMax axis vs)"
    by (simp add: boxMax_def im del: set_map)
  have "T (Min (axis ` set vs)) = Min (T ` (axis ` set vs))"
    using assms(1) by (intro mono_Min_commute [OF m]) simp_all
  then show "boxMin axis (map f vs) = T (boxMin axis vs)"
    by (simp add: boxMin_def im del: set_map)
qed

lemma vlerpR_sel:
  "vlerpR fl a b amt =
     Vec (lerpR fl (vx a) (vx b) amt) (lerpR fl (vy a) (vy b) amt) (lerpR fl (vz a) (vz b) amt)"
  by (cases a; cases b) simp

lemma vsubR_sel: "vsubR fl a b = Vec (fl (vx a - vx b)) (fl (vy a - vy b)) (fl (vz a - vz b))"
  by (cases a; cases b) simp

lemma normalize_geom_nonempty:
  assumes "vertices g \<noteq> []"
  shows "normalize_geom fl g =
     g\<lparr>vertices :=
       map (\<lambda>v. vmultR fl
              (vsubR fl v
                 (Vec (axisCenter fl vx (vertices g)) (axisCenter fl vy (vertices g))
                      (axisCenter fl vz (vertices g))))
              (divR fl 200 (longestDistR fl (vertices g))))
         (vertices g)\<rparr>"
  using assms
  by (simp add: normalize_geom_def boundsLoop_box vlerpR_sel vsubR_sel axisCenter_def
        longestDistR_def Let_def)

lemma sub_mult_axisMap:
  "vmultR fl (vsubR fl v (Vec cx cy cz)) (Finite s) =
     Vec (axisMap fl cx s (vx v)) (axisMap fl cy s (vy v)) (axisMap fl cz s (vz v))"
  by (cases v) (simp add: axisMap_def)

lemma longestDistR_bounds:
  assumes r: "rounding u fl" and u: "u \<le> 1" and ne: "vs \<noteq> []"
  shows "(1 - u) * boxLongest vs \<le> longestDistR fl vs"
    and "longestDistR fl vs \<le> (1 + u) * boxLongest vs"
    and "0 \<le> boxLongest vs"
proof -
  define dx where "dx = boxMax vx vs - boxMin vx vs"
  define dy where "dy = boxMax vy vs - boxMin vy vs"
  define dz where "dz = boxMax vz vs - boxMin vz vs"
  have d0: "0 \<le> dx" "0 \<le> dy" "0 \<le> dz"
    using box_order [OF ne, of vx] box_order [OF ne, of vy] box_order [OF ne, of vz]
    by (simp_all add: dx_def dy_def dz_def)
  have u0: "0 \<le> u" using rounding_abs(2) [OF r] .
  note fx = rounding_pos [OF r d0(1)]
  note fy = rounding_pos [OF r d0(2)]
  note fz = rounding_pos [OF r d0(3)]
  have L0: "boxLongest vs = max (max dx dy) dz"
    by (simp add: boxLongest_def dx_def dy_def dz_def)
  have L: "longestDistR fl vs = max (max (fl dx) (fl dy)) (fl dz)"
    by (simp add: longestDistR_def dx_def dy_def dz_def)
  show "0 \<le> boxLongest vs" using d0 by (simp add: L0)
  have up: "(1 + u) * dx \<le> (1 + u) * max (max dx dy) dz"
    "(1 + u) * dy \<le> (1 + u) * max (max dx dy) dz"
    "(1 + u) * dz \<le> (1 + u) * max (max dx dy) dz"
    using u0 by (simp_all add: mult_left_mono)
  show "longestDistR fl vs \<le> (1 + u) * boxLongest vs"
    unfolding L L0 using fx(2) fy(2) fz(2) up by (simp add: max.coboundedI1)
  consider "max (max dx dy) dz = dx" | "max (max dx dy) dz = dy" | "max (max dx dy) dz = dz"
    by linarith
  then show "(1 - u) * boxLongest vs \<le> longestDistR fl vs"
  proof cases
    case 1
    then show ?thesis unfolding L L0 using fx(1) by (simp add: le_max_iff_disj)
  next
    case 2
    then show ?thesis unfolding L L0 using fy(1) by (simp add: le_max_iff_disj)
  next
    case 3
    then show ?thesis unfolding L L0 using fz(1) by (simp add: le_max_iff_disj)
  qed
qed

text \<open>
  One axis of the box after \<^verbatim>\<open>normalize\<close>: its two ends are the images of the two
  ends of the box before, \<open>M\<close> and \<open>m\<close>.
\<close>

lemma axis_after:
  assumes r: "rounding u fl" and u: "u \<le> 1 / 4" and s: "0 \<le> s"
    and fM: "fl M = M" and fm: "fl m = m" and mM: "m \<le> M"
    and c: "c = lerpR fl M m (1 / 2)"
  shows "(1 - u) * (1 - u) * (s * (M - m)) \<le> axisMap fl c s M - axisMap fl c s m"
    and "axisMap fl c s M - axisMap fl c s m \<le> (1 + u) * (1 + u) * (s * (M - m))"
    and "\<bar>axisMap fl c s M + axisMap fl c s m\<bar>
           \<le> u * (3 * (s * max \<bar>M\<bar> \<bar>m\<bar>) + 6 * (s * (M - m)))"
proof -
  have u0: "0 \<le> u" using rounding_abs(2) [OF r] .
  have u1: "u \<le> 1" using u by simp
  note cc = lerpR_half [OF r u fM fm mM, folded c]
  define P where "P = s * (M - c)"
  define Q where "Q = s * (c - m)"
  define X where "X = s * (M + m - 2 * c)"
  define sB where "sB = s * max \<bar>M\<bar> \<bar>m\<bar>"
  define sD where "sD = s * (M - m)"
  define tm where "tm = axisMap fl c s M"
  define tn where "tn = axisMap fl c s m"
  have P0: "0 \<le> P" and Q0: "0 \<le> Q"
    using cc(1,2) s by (simp_all add: P_def Q_def)
  have PQ: "P + Q = sD" "P - Q = X"
    by (simp_all add: P_def Q_def sD_def X_def algebra_simps)
  have Qm: "s * (m - c) = - Q" by (simp add: Q_def algebra_simps)
  have tm1: "(1 - u) * (1 - u) * P \<le> tm" and tm2: "tm \<le> (1 + u) * (1 + u) * P"
    using axisMap_above [OF r u1 s cc(2)] by (simp_all add: tm_def P_def)
  have tn1: "(1 + u) * (1 + u) * (- Q) \<le> tn" and tn2: "tn \<le> (1 - u) * (1 - u) * (- Q)"
    using axisMap_below [OF r u1 s cc(1)] by (simp_all only: tn_def Qm)
  have tm1': "P - 2 * (u * P) + u * (u * P) \<le> tm"
    and tm2': "tm \<le> P + 2 * (u * P) + u * (u * P)"
    using tm1 tm2 by (simp_all add: algebra_simps)
  have tn1': "- Q - 2 * (u * Q) - u * (u * Q) \<le> tn"
    and tn2': "tn \<le> - Q + 2 * (u * Q) - u * (u * Q)"
    using tn1 tn2 by (simp_all add: algebra_simps)
  have uD: "u * P + u * Q = u * sD"
    by (simp add: PQ(1) [symmetric] algebra_simps)
  have uuX: "u * (u * P) - u * (u * Q) = u * (u * X)"
    by (simp add: PQ(2) [symmetric] algebra_simps)
  have sD0: "0 \<le> sD" using P0 Q0 PQ(1) by linarith
  have usD0: "0 \<le> u * sD" using u0 sD0 by simp
  have sB0: "0 \<le> sB" using s by (simp add: sB_def)
  have usB0: "0 \<le> u * sB" using u0 sB0 by simp
  show "(1 - u) * (1 - u) * (s * (M - m)) \<le> axisMap fl c s M - axisMap fl c s m"
  proof -
    have "(1 - u) * (1 - u) * sD = (1 - u) * (1 - u) * P + (1 - u) * (1 - u) * Q"
      by (simp add: PQ(1) [symmetric] algebra_simps)
    also have "\<dots> \<le> tm - tn" using tm1 tn2 by (simp add: algebra_simps)
    finally show ?thesis by (simp add: sD_def tm_def tn_def)
  qed
  show "axisMap fl c s M - axisMap fl c s m \<le> (1 + u) * (1 + u) * (s * (M - m))"
  proof -
    have "tm - tn \<le> (1 + u) * (1 + u) * P + (1 + u) * (1 + u) * Q"
      using tm2 tn1 by (simp add: algebra_simps)
    also have "\<dots> = (1 + u) * (1 + u) * sD"
      by (simp add: PQ(1) [symmetric] algebra_simps)
    finally show ?thesis by (simp add: sD_def tm_def tn_def)
  qed
  have "\<bar>X\<bar> = s * \<bar>M + m - 2 * c\<bar>"
    using s by (simp add: X_def abs_mult)
  also have "\<dots> \<le> s * (u * (2 * max \<bar>M\<bar> \<bar>m\<bar> + 3 * (M - m)))"
    using cc(3) s by (rule mult_left_mono)
  also have "\<dots> = 2 * (u * sB) + 3 * (u * sD)"
    by (simp add: sB_def sD_def algebra_simps)
  finally have X: "\<bar>X\<bar> \<le> 2 * (u * sB) + 3 * (u * sD)" .
  have uu: "u * u \<le> 1 / 16"
  proof -
    have "u * u \<le> (1 / 4) * (1 / 4)"
      using u u0 by (intro mult_mono) simp_all
    then show ?thesis by simp
  qed
  have "\<bar>u * (u * X)\<bar> = (u * u) * \<bar>X\<bar>"
    using u0 by (simp add: abs_mult)
  also have "\<dots> \<le> (1 / 16) * \<bar>X\<bar>"
    using uu by (rule mult_right_mono) simp
  finally have uuXb: "\<bar>u * (u * X)\<bar> \<le> \<bar>X\<bar> / 16" by simp
  have "\<bar>tm + tn\<bar> \<le> 3 * (u * sB) + 6 * (u * sD)"
    using tm1' tm2' tn1' tn2' uD uuX PQ(2) X uuXb usD0 usB0 by linarith
  then show "\<bar>axisMap fl c s M + axisMap fl c s m\<bar>
           \<le> u * (3 * (s * max \<bar>M\<bar> \<bar>m\<bar>) + 6 * (s * (M - m)))"
    by (simp add: tm_def tn_def sB_def sD_def algebra_simps)
qed

text \<open>The scale factor, when the box has an extent.\<close>

lemma scale_bounds:
  assumes r: "rounding u fl" and u: "u \<le> 1 / 4" and ne: "vs \<noteq> []"
    and pos: "0 < boxLongest vs"
  shows "\<exists>s. divR fl 200 (longestDistR fl vs) = Finite s \<and> 0 \<le> s
           \<and> 200 * (1 - u) / (1 + u) \<le> s * boxLongest vs
           \<and> s * boxLongest vs \<le> 200 * (1 + u) / (1 - u)"
proof -
  define L where "L = longestDistR fl vs"
  define L0 where "L0 = boxLongest vs"
  have u0: "0 \<le> u" using rounding_abs(2) [OF r] .
  have u1: "u \<le> 1" "0 < 1 - u" "0 < 1 + u" using u u0 by simp_all
  have Lb: "(1 - u) * L0 \<le> L" "L \<le> (1 + u) * L0"
    using longestDistR_bounds [OF r u1(1) ne] by (simp_all add: L_def L0_def)
  have L0pos: "0 < L0" using pos by (simp add: L0_def)
  have "0 < (1 - u) * L0" using u1(2) L0pos by simp
  then have Lpos: "0 < L" using Lb(1) by linarith
  define s where "s = fl (200 / L)"
  have q0: "0 \<le> 200 / L" using Lpos by simp
  have sb: "(1 - u) * (200 / L) \<le> s" "s \<le> (1 + u) * (200 / L)" "0 \<le> s"
    using rounding_pos [OF r q0] by (simp_all add: s_def)
  define \<rho> where "\<rho> = L0 / L"
  have rho: "1 / (1 + u) \<le> \<rho>" "\<rho> \<le> 1 / (1 - u)" "0 \<le> \<rho>"
    using Lb Lpos L0pos u1 by (simp_all add: \<rho>_def field_simps)
  have e: "(200 / L) * L0 = 200 * \<rho>" by (simp add: \<rho>_def)
  have lo: "200 * (1 - u) / (1 + u) \<le> s * L0"
  proof -
    have "200 * (1 - u) / (1 + u) = (1 - u) * (200 * (1 / (1 + u)))" by simp
    also have "\<dots> \<le> (1 - u) * (200 * \<rho>)"
      using rho(1) u1(2) by (intro mult_left_mono) simp_all
    also have "\<dots> = (1 - u) * (200 / L) * L0" by (simp add: e [symmetric])
    also have "\<dots> \<le> s * L0"
      using sb(1) L0pos by (intro mult_right_mono) simp_all
    finally show ?thesis .
  qed
  have hi: "s * L0 \<le> 200 * (1 + u) / (1 - u)"
  proof -
    have "s * L0 \<le> (1 + u) * (200 / L) * L0"
      using sb(2) L0pos by (intro mult_right_mono) simp_all
    also have "\<dots> = (1 + u) * (200 * \<rho>)" by (simp add: e [symmetric])
    also have "\<dots> \<le> (1 + u) * (200 * (1 / (1 - u)))"
      using rho(2) u1(3) by (intro mult_left_mono) simp_all
    also have "\<dots> = 200 * (1 + u) / (1 - u)" by simp
    finally show ?thesis .
  qed
  have "divR fl 200 (longestDistR fl vs) = Finite s"
    using Lpos by (simp add: divR_def s_def L_def)
  with sb(3) lo hi show ?thesis by (auto simp: L0_def)
qed

lemma axis_box:
  fixes axis :: "vec \<Rightarrow> real"
  assumes r: "rounding u fl" and u: "u \<le> 1 / 4" and ne: "vs \<noteq> []"
    and pos: "0 < boxLongest vs"
    and rep: "\<forall>v \<in> set vs. fl (axis v) = axis v"
    and f: "\<forall>v \<in> set vs. axis (f v) = axisMap fl (axisCenter fl axis vs) s (axis v)"
    and s: "0 \<le> s" "200 * (1 - u) / (1 + u) \<le> s * boxLongest vs"
      "s * boxLongest vs \<le> 200 * (1 + u) / (1 - u)"
    and le: "boxMax axis vs - boxMin axis vs \<le> boxLongest vs"
  shows "boxMax axis (map f vs) - boxMin axis (map f vs) \<le> 200 * (1 + u) ^ 3 / (1 - u)"
    and "boxMax axis vs - boxMin axis vs = boxLongest vs \<Longrightarrow>
           200 * (1 - u) ^ 3 / (1 + u) \<le> boxMax axis (map f vs) - boxMin axis (map f vs)"
    and "\<bar>boxCenter axis (map f vs)\<bar>
           \<le> 1000 * u * (1 + boxReach axis vs / boxLongest vs)"
proof -
  define M where "M = boxMax axis vs"
  define m where "m = boxMin axis vs"
  define c where "c = axisCenter fl axis vs"
  define L0 where "L0 = boxLongest vs"
  define k where "k = s * L0"
  define B where "B = max \<bar>M\<bar> \<bar>m\<bar>"
  have u0: "0 \<le> u" using rounding_abs(2) [OF r] .
  have u1: "u \<le> 1" "0 < 1 - u" "0 < 1 + u" using u u0 by simp_all
  have fM: "fl M = M"
    using box_attained(1) [OF ne, of axis] rep unfolding M_def by metis
  have fm: "fl m = m"
    using box_attained(2) [OF ne, of axis] rep unfolding m_def by metis
  have mM: "m \<le> M" using box_order [OF ne] by (simp add: M_def m_def)
  have cdef: "c = lerpR fl M m (1 / 2)"
    by (simp add: c_def axisCenter_def M_def m_def)
  have mono: "\<And>x y. x \<le> y \<Longrightarrow> axisMap fl c s x \<le> axisMap fl c s y"
    using axisMap_mono [OF r s(1)] .
  have bx: "boxMax axis (map f vs) = axisMap fl c s M"
    "boxMin axis (map f vs) = axisMap fl c s m"
    using box_map_mono [of vs "axisMap fl c s" axis f, OF ne mono] f
    by (simp_all add: c_def M_def m_def)
  note aa = axis_after [OF r u s(1) fM fm mM cdef]
  have L0pos: "0 < L0" using pos by (simp add: L0_def)
  have kb: "200 * (1 - u) / (1 + u) \<le> k" "k \<le> 200 * (1 + u) / (1 - u)"
    using s(2,3) by (simp_all add: k_def L0_def)
  have k0: "0 \<le> k" using s(1) L0pos by (simp add: k_def)
  have D: "M - m \<le> L0" using le by (simp add: M_def m_def L0_def)
  have sD: "s * (M - m) \<le> k" "0 \<le> s * (M - m)"
    using D s(1) mM by (simp_all add: k_def mult_left_mono)
  show "boxMax axis (map f vs) - boxMin axis (map f vs) \<le> 200 * (1 + u) ^ 3 / (1 - u)"
  proof -
    have "axisMap fl c s M - axisMap fl c s m \<le> (1 + u) * (1 + u) * (s * (M - m))"
      using aa(2) .
    also have "\<dots> \<le> (1 + u) * (1 + u) * k"
      using sD(1) u0 by (intro mult_left_mono) simp_all
    also have "\<dots> \<le> (1 + u) * (1 + u) * (200 * (1 + u) / (1 - u))"
      using kb(2) u0 by (intro mult_left_mono) simp_all
    also have "\<dots> = 200 * (1 + u) ^ 3 / (1 - u)"
      by (simp add: power3_eq_cube)
    finally show ?thesis by (simp add: bx)
  qed
  show "200 * (1 - u) ^ 3 / (1 + u) \<le> boxMax axis (map f vs) - boxMin axis (map f vs)"
    if "boxMax axis vs - boxMin axis vs = boxLongest vs"
  proof -
    have e: "s * (M - m) = k" using that by (simp add: k_def M_def m_def L0_def)
    have "200 * (1 - u) ^ 3 / (1 + u) = (1 - u) * (1 - u) * (200 * (1 - u) / (1 + u))"
      by (simp add: power3_eq_cube)
    also have "\<dots> \<le> (1 - u) * (1 - u) * k"
      using kb(1) u1 by (intro mult_left_mono) simp_all
    also have "\<dots> \<le> axisMap fl c s M - axisMap fl c s m"
      using aa(1) by (simp add: e)
    finally show ?thesis by (simp add: bx)
  qed
  define \<beta> where "\<beta> = B / L0"
  have b0: "0 \<le> \<beta>" using L0pos by (simp add: \<beta>_def B_def)
  have K: "200 * (1 + u) / (1 - u) \<le> 1000 / 3"
    using u u1 by (simp add: field_simps)
  have k3: "k \<le> 1000 / 3" using kb(2) K by linarith
  have sB: "s * B = k * \<beta>" using L0pos by (simp add: k_def \<beta>_def)
  have kbeta: "k * \<beta> \<le> (1000 / 3) * \<beta>"
    using k3 b0 by (rule mult_right_mono)
  have "\<bar>axisMap fl c s M + axisMap fl c s m\<bar> \<le> u * (3 * (s * B) + 6 * (s * (M - m)))"
    using aa(3) by (simp add: B_def)
  also have "\<dots> \<le> u * (1000 * \<beta> + 2000)"
    using sD(1) k3 kbeta u0 by (intro mult_left_mono) (simp_all add: sB)
  finally have S: "\<bar>axisMap fl c s M + axisMap fl c s m\<bar> \<le> u * (1000 * \<beta> + 2000)" .
  have ub: "0 \<le> u * \<beta>" using u0 b0 by simp
  have "\<bar>boxCenter axis (map f vs)\<bar> = \<bar>axisMap fl c s M + axisMap fl c s m\<bar> / 2"
    by (simp add: boxCenter_def bx)
  also have "\<dots> \<le> u * (1000 * \<beta> + 2000) / 2" using S by simp
  also have "\<dots> \<le> 1000 * u * (1 + \<beta>)" using ub by (simp add: algebra_simps)
  finally show "\<bar>boxCenter axis (map f vs)\<bar>
           \<le> 1000 * u * (1 + boxReach axis vs / boxLongest vs)"
    by (simp add: \<beta>_def B_def boxReach_def M_def m_def L0_def)
qed

text \<open>A box with no extent: every vertex is the one corner, and the scale is Infinity.\<close>

lemma flat_axis:
  fixes axis :: "vec \<Rightarrow> real"
  assumes r: "rounding u fl" and ne: "vs \<noteq> []"
    and rep: "\<forall>v \<in> set vs. fl (axis v) = axis v"
    and z: "boxMax axis vs - boxMin axis vs \<le> 0"
  shows "boxMin axis vs = boxMax axis vs"
    and "\<And>v. v \<in> set vs \<Longrightarrow> axis v = boxMax axis vs"
    and "axisCenter fl axis vs = boxMax axis vs"
proof -
  show e: "boxMin axis vs = boxMax axis vs"
    using box_order [OF ne, of axis] z by linarith
  show "\<And>v. v \<in> set vs \<Longrightarrow> axis v = boxMax axis vs"
    using box_bounds [of _ vs axis] e by fastforce
  have "fl (boxMax axis vs) = boxMax axis vs"
    using box_attained(1) [OF ne, of axis] rep by metis
  then show "axisCenter fl axis vs = boxMax axis vs"
    by (simp add: axisCenter_def lerpR_def e rounding_zero [OF r])
qed

lemma normalize_flat:
  assumes r: "rounding u fl" and ne: "vertices g \<noteq> []"
    and rep: "\<forall>v \<in> set (vertices g). representable fl v"
    and z: "boxLongest (vertices g) = 0"
  shows "vertices (normalize_geom fl g) = map (\<lambda>v. Vec 0 0 0) (vertices g)"
proof -
  let ?vs = "vertices g"
  have zx: "boxMax vx ?vs - boxMin vx ?vs \<le> 0"
    and zy: "boxMax vy ?vs - boxMin vy ?vs \<le> 0"
    and zz: "boxMax vz ?vs - boxMin vz ?vs \<le> 0"
    using z by (simp_all add: boxLongest_def max_def split: if_splits)
  have rx: "\<forall>v \<in> set ?vs. fl (vx v) = vx v"
    and ry: "\<forall>v \<in> set ?vs. fl (vy v) = vy v"
    and rz: "\<forall>v \<in> set ?vs. fl (vz v) = vz v"
    using rep by (simp_all add: representable_def)
  note fx = flat_axis [OF r ne rx zx]
  note fy = flat_axis [OF r ne ry zy]
  note fz = flat_axis [OF r ne rz zz]
  have L: "longestDistR fl ?vs = 0"
    by (simp add: longestDistR_def fx(1) fy(1) fz(1) rounding_zero [OF r])
  have "vsubR fl v (Vec (boxMax vx ?vs) (boxMax vy ?vs) (boxMax vz ?vs)) = Vec 0 0 0"
    if "v \<in> set ?vs" for v
    using fx(2) [OF that] fy(2) [OF that] fz(2) [OF that]
    by (simp add: vsubR_sel rounding_zero [OF r])
  then show ?thesis
    by (simp add: normalize_geom_nonempty [OF ne] L divR_def fx(3) fy(3) fz(3))
qed

lemma box_constant:
  fixes axis :: "vec \<Rightarrow> real"
  assumes "vs \<noteq> []"
  shows "boxMax axis (map (\<lambda>v. c) vs) = axis c" and "boxMin axis (map (\<lambda>v. c) vs) = axis c"
  using assms by (simp_all add: boxMax_def boxMin_def image_constant_conv)

text \<open>
  Claim C5, as the code has it. On an empty vertex list \<^verbatim>\<open>normalize\<close> changes nothing.
  On a non-empty list of representable vertices it changes the vertices only, and with
  a rounding of relative error at most \<open>u\<close> (at most one quarter): when the bounding
  box has no extent, which is the case of a single vertex, every vertex becomes the
  origin, so the box is centered and its longest dimension is 0, not 200; when the
  bounding box has an extent, which is the case as soon as two vertices differ, the
  longest dimension of the box after \<^verbatim>\<open>normalize\<close> lies between
  \<open>200 (1 - u)\<^sup>3 / (1 + u)\<close> and \<open>200 (1 + u)\<^sup>3 / (1 - u)\<close>, and along every axis
  the middle of the box is no further from zero than \<open>1000 u (1 + reach / longest)\<close>,
  where \<open>reach\<close> is the largest absolute coordinate along that axis and \<open>longest\<close>
  the longest dimension before. With \<open>u = 0\<close> this is a box centered at the origin
  whose longest dimension is 200.
\<close>

theorem normalize_box:
  "(vertices g = [] \<longrightarrow> normalize_geom fl g = g)
   \<and> (vertices g \<noteq> [] \<and> rounding u fl \<and> u \<le> 1 / 4
        \<and> (\<forall>v \<in> set (vertices g). representable fl v) \<longrightarrow>
        normalize_geom fl g = g\<lparr>vertices := vertices (normalize_geom fl g)\<rparr>
        \<and> length (vertices (normalize_geom fl g)) = length (vertices g)
        \<and> 0 \<le> boxLongest (vertices g)
        \<and> (boxLongest (vertices g) = 0 \<longrightarrow>
             vertices (normalize_geom fl g) = map (\<lambda>v. Vec 0 0 0) (vertices g)
             \<and> boxCentered (vertices (normalize_geom fl g))
             \<and> boxLongest (vertices (normalize_geom fl g)) = 0)
        \<and> (0 < boxLongest (vertices g) \<longrightarrow>
             200 * (1 - u) ^ 3 / (1 + u) \<le> boxLongest (vertices (normalize_geom fl g))
             \<and> boxLongest (vertices (normalize_geom fl g)) \<le> 200 * (1 + u) ^ 3 / (1 - u)
             \<and> \<bar>boxCenter vx (vertices (normalize_geom fl g))\<bar>
                 \<le> 1000 * u * (1 + boxReach vx (vertices g) / boxLongest (vertices g))
             \<and> \<bar>boxCenter vy (vertices (normalize_geom fl g))\<bar>
                 \<le> 1000 * u * (1 + boxReach vy (vertices g) / boxLongest (vertices g))
             \<and> \<bar>boxCenter vz (vertices (normalize_geom fl g))\<bar>
                 \<le> 1000 * u * (1 + boxReach vz (vertices g) / boxLongest (vertices g))))
   \<and> (v \<in> set (vertices g) \<and> w \<in> set (vertices g) \<and> v \<noteq> w \<longrightarrow>
        0 < boxLongest (vertices g))"
proof (intro conjI impI)
  assume "vertices g = []"
  then show "normalize_geom fl g = g" by (simp add: normalize_geom_def)
next
  assume "v \<in> set (vertices g) \<and> w \<in> set (vertices g) \<and> v \<noteq> w"
  then show "0 < boxLongest (vertices g)"
    using distinct_points_extent by blast
next
  assume h: "vertices g \<noteq> [] \<and> rounding u fl \<and> u \<le> 1 / 4
        \<and> (\<forall>v \<in> set (vertices g). representable fl v)"
  let ?vs = "vertices g"
  let ?vs' = "vertices (normalize_geom fl g)"
  from h have ne: "?vs \<noteq> []" and r: "rounding u fl" and u: "u \<le> 1 / 4"
    and rep: "\<forall>v \<in> set ?vs. representable fl v"
    by simp_all
  have u1: "u \<le> 1" using u by simp
  show "normalize_geom fl g = g\<lparr>vertices := ?vs'\<rparr>"
    by (simp add: normalize_geom_nonempty [OF ne])
  show "length ?vs' = length ?vs"
    by (simp add: normalize_geom_nonempty [OF ne])
  show "0 \<le> boxLongest ?vs"
    using longestDistR_bounds(3) [OF r u1 ne] .
  {
    assume z: "boxLongest ?vs = 0"
    show flat: "?vs' = map (\<lambda>v. Vec 0 0 0) ?vs"
      using normalize_flat [OF r ne rep z] .
    show "boxCentered ?vs'"
      by (simp add: flat boxCentered_def boxCenter_def box_constant [OF ne])
    show "boxLongest ?vs' = 0"
      by (simp add: flat boxLongest_def box_constant [OF ne])
  }
  {
    assume pos: "0 < boxLongest ?vs"
    obtain s where dv: "divR fl 200 (longestDistR fl ?vs) = Finite s"
      and s: "0 \<le> s" "200 * (1 - u) / (1 + u) \<le> s * boxLongest ?vs"
        "s * boxLongest ?vs \<le> 200 * (1 + u) / (1 - u)"
      using scale_bounds [OF r u ne pos] by blast
    define f where "f = (\<lambda>v. Vec (axisMap fl (axisCenter fl vx ?vs) s (vx v))
                               (axisMap fl (axisCenter fl vy ?vs) s (vy v))
                               (axisMap fl (axisCenter fl vz ?vs) s (vz v)))"
    have res: "?vs' = map f ?vs"
      by (simp add: normalize_geom_nonempty [OF ne] dv sub_mult_axisMap f_def)
    have rx: "\<forall>v \<in> set ?vs. fl (vx v) = vx v"
      and ry: "\<forall>v \<in> set ?vs. fl (vy v) = vy v"
      and rz: "\<forall>v \<in> set ?vs. fl (vz v) = vz v"
      using rep by (simp_all add: representable_def)
    have fx: "\<forall>v \<in> set ?vs. vx (f v) = axisMap fl (axisCenter fl vx ?vs) s (vx v)"
      and fy: "\<forall>v \<in> set ?vs. vy (f v) = axisMap fl (axisCenter fl vy ?vs) s (vy v)"
      and fz: "\<forall>v \<in> set ?vs. vz (f v) = axisMap fl (axisCenter fl vz ?vs) s (vz v)"
      by (simp_all add: f_def)
    have lx: "boxMax vx ?vs - boxMin vx ?vs \<le> boxLongest ?vs"
      and ly: "boxMax vy ?vs - boxMin vy ?vs \<le> boxLongest ?vs"
      and lz: "boxMax vz ?vs - boxMin vz ?vs \<le> boxLongest ?vs"
      by (simp_all add: boxLongest_def)
    note bx = axis_box [OF r u ne pos rx fx s lx]
    note by' = axis_box [OF r u ne pos ry fy s ly]
    note bz = axis_box [OF r u ne pos rz fz s lz]
    show "boxLongest ?vs' \<le> 200 * (1 + u) ^ 3 / (1 - u)"
      using bx(1) by'(1) bz(1) by (simp add: res boxLongest_def)
    consider "boxMax vx ?vs - boxMin vx ?vs = boxLongest ?vs"
      | "boxMax vy ?vs - boxMin vy ?vs = boxLongest ?vs"
      | "boxMax vz ?vs - boxMin vz ?vs = boxLongest ?vs"
      unfolding boxLongest_def by linarith
    then show "200 * (1 - u) ^ 3 / (1 + u) \<le> boxLongest ?vs'"
    proof cases
      case 1
      from bx(2) [OF this] show ?thesis
        by (simp add: res boxLongest_def [of "map f ?vs"] le_max_iff_disj)
    next
      case 2
      from by'(2) [OF this] show ?thesis
        by (simp add: res boxLongest_def [of "map f ?vs"] le_max_iff_disj)
    next
      case 3
      from bz(2) [OF this] show ?thesis
        by (simp add: res boxLongest_def [of "map f ?vs"] le_max_iff_disj)
    qed
    show "\<bar>boxCenter vx ?vs'\<bar> \<le> 1000 * u * (1 + boxReach vx ?vs / boxLongest ?vs)"
      using bx(3) by (simp add: res)
    show "\<bar>boxCenter vy ?vs'\<bar> \<le> 1000 * u * (1 + boxReach vy ?vs / boxLongest ?vs)"
      using by'(3) by (simp add: res)
    show "\<bar>boxCenter vz ?vs'\<bar> \<le> 1000 * u * (1 + boxReach vz ?vs / boxLongest ?vs)"
      using bz(3) by (simp add: res)
  }
qed

text \<open>Two rounding functions: exact arithmetic, and the one of \<open>elevenApart\<close>.\<close>

lemma rounding_exact: "rounding 0 (\<lambda>x. x)"
  by (simp add: rounding_def)

lemma flDouble11_mono:
  assumes "x \<le> y"
  shows "flDouble11 x \<le> flDouble11 y"
  using assms unfolding flDouble11_def scale11_def edge11_def
  by (simp split: if_splits)

lemma snap_pos:
  fixes a h u x :: real
  assumes "a - h < x" and "x < a + h" and "h \<le> u * (a - h)" and "0 \<le> u" and "0 \<le> a - h"
  shows "\<bar>a - x\<bar> \<le> u * \<bar>x\<bar>"
proof -
  have "u * (a - h) \<le> u * x"
    using assms(1,4) by (intro mult_left_mono) simp_all
  moreover have "\<bar>x\<bar> = x" using assms(1,5) by simp
  moreover have "\<bar>a - x\<bar> < h" using assms(1,2) by linarith
  ultimately show ?thesis using assms(3) by linarith
qed

lemma snap_neg:
  fixes a h u x :: real
  assumes "- a - h < x" and "x < - a + h" and "h \<le> u * (a - h)" and "0 \<le> u"
    and "0 \<le> a - h"
  shows "\<bar>- a - x\<bar> \<le> u * \<bar>x\<bar>"
proof -
  have "\<bar>a - (- x)\<bar> \<le> u * \<bar>- x\<bar>"
    using assms by (intro snap_pos [where h = h]) simp_all
  moreover have "\<bar>a - (- x)\<bar> = \<bar>- a - x\<bar>" by linarith
  ultimately show ?thesis by simp
qed

lemma flDouble11_error: "\<bar>flDouble11 x - x\<bar> \<le> (1 / 2 ^ 53) * \<bar>x\<bar>"
proof -
  let ?A = "scale11 - 1 / 2 ^ 49 < x \<and> x < scale11 + 1 / 2 ^ 49"
  let ?B = "edge11 - 1 / 2 ^ 47 < x \<and> x < edge11 + 1 / 2 ^ 47"
  let ?C = "- scale11 - 1 / 2 ^ 49 < x \<and> x < - scale11 + 1 / 2 ^ 49"
  let ?D = "- edge11 - 1 / 2 ^ 47 < x \<and> x < - edge11 + 1 / 2 ^ 47"
  have other: "flDouble11 x = x" if "\<not> ?A" "\<not> ?B" "\<not> ?C" "\<not> ?D"
    using that unfolding flDouble11_def by (simp only: if_False)
  consider (a) ?A | (b) ?B | (c) ?C | (d) ?D | (e) "flDouble11 x = x"
    using other by blast
  then show ?thesis
  proof cases
    case a
    have "\<bar>scale11 - x\<bar> \<le> (1 / 2 ^ 53) * \<bar>x\<bar>"
      by (rule snap_pos [where h = "1 / 2 ^ 49"]) (insert a, simp_all add: scale11_def)
    moreover have "flDouble11 x = scale11" using a by (simp add: flDouble11_def)
    ultimately show ?thesis by simp
  next
    case b
    have "\<bar>edge11 - x\<bar> \<le> (1 / 2 ^ 53) * \<bar>x\<bar>"
      by (rule snap_pos [where h = "1 / 2 ^ 47"]) (insert b, simp_all add: edge11_def)
    moreover have "flDouble11 x = edge11"
      using b by (simp add: flDouble11_def scale11_def edge11_def)
    ultimately show ?thesis by simp
  next
    case c
    have "\<bar>- scale11 - x\<bar> \<le> (1 / 2 ^ 53) * \<bar>x\<bar>"
      by (rule snap_neg [where h = "1 / 2 ^ 49"]) (insert c, simp_all add: scale11_def)
    moreover have "flDouble11 x = - scale11"
      using c by (simp add: flDouble11_def scale11_def edge11_def)
    ultimately show ?thesis by simp
  next
    case d
    have "\<bar>- edge11 - x\<bar> \<le> (1 / 2 ^ 53) * \<bar>x\<bar>"
      by (rule snap_neg [where h = "1 / 2 ^ 47"]) (insert d, simp_all add: edge11_def)
    moreover have "flDouble11 x = - edge11"
      using d by (simp add: flDouble11_def scale11_def edge11_def)
    ultimately show ?thesis by simp
  next
    case e
    then show ?thesis by simp
  qed
qed

lemma rounding_flDouble11: "rounding (1 / 2 ^ 53) flDouble11"
  unfolding rounding_def using flDouble11_mono flDouble11_error by simp

lemma flDouble11_values:
  "flDouble11 0 = 0" "flDouble11 11 = 11" "flDouble11 (- 11) = - 11"
  "flDouble11 (11 / 2) = 11 / 2" "flDouble11 (- (11 / 2)) = - (11 / 2)"
  "flDouble11 (200 / 11) = scale11"
  "flDouble11 (11 * scale11 / 2) = edge11"
  "flDouble11 (- (11 * scale11 / 2)) = - edge11"
  "flDouble11 1 = 1" "flDouble11 2 = 2" "flDouble11 3 = 3"
  unfolding flDouble11_def scale11_def edge11_def by simp_all

lemma onePoint_normalize:
  "normalize_geom (\<lambda>x. x) onePoint = onePoint\<lparr>vertices := [Vec 0 0 0]\<rparr>"
  "normalize_geom flDouble11 onePoint = onePoint\<lparr>vertices := [Vec 0 0 0]\<rparr>"
  by (simp_all add: onePoint_def normalize_geom_def lerpR_def divR_def flDouble11_values
        Let_def)

lemma twoPoints_normalize:
  "normalize_geom (\<lambda>x. x) twoPoints =
     twoPoints\<lparr>vertices := [Vec (- 100) (- 50) 0, Vec 100 50 0]\<rparr>"
  by (simp add: twoPoints_def normalize_geom_def lerpR_def divR_def Let_def)

lemma elevenApart_normalize:
  "normalize_geom flDouble11 elevenApart =
     elevenApart\<lparr>vertices := [Vec (- edge11) 0 0, Vec edge11 0 0]\<rparr>"
  by (simp add: elevenApart_def normalize_geom_def lerpR_def divR_def flDouble11_values
        Let_def)

lemma edge11_box:
  "boxLongest [Vec (- edge11) 0 0, Vec edge11 0 0] = 2 * edge11"
  "boxCenter vx [Vec (- edge11) 0 0, Vec edge11 0 0] = 0"
  "200 < 2 * edge11"
  by (simp_all add: boxLongest_def boxCenter_def boxMax_def boxMin_def edge11_def)

text \<open>
  The claim as stated fails twice. On a single vertex the bounding box has no extent,
  the scale is \<^verbatim>\<open>200 / 0\<close>, and the vertex ends at the origin: the longest dimension
  after \<^verbatim>\<open>normalize\<close> is 0, with or without rounding. On the two vertices
  \<open>(0, 0, 0)\<close> and \<open>(11, 0, 0)\<close>, in double precision, the vertices end at
  \<open>-100.00000000000001\<close> and \<open>100.00000000000001\<close>: the longest dimension is more
  than 200.
\<close>

theorem normalize_single_vertex_counterexample:
  "vertices onePoint \<noteq> []
   \<and> normalize_geom (\<lambda>x. x) onePoint = onePoint\<lparr>vertices := [Vec 0 0 0]\<rparr>
   \<and> normalize_geom flDouble11 onePoint = onePoint\<lparr>vertices := [Vec 0 0 0]\<rparr>
   \<and> boxLongest (vertices (normalize_geom (\<lambda>x. x) onePoint)) = 0
   \<and> boxLongest (vertices (normalize_geom flDouble11 onePoint)) = 0
   \<and> vertices elevenApart \<noteq> []
   \<and> normalize_geom flDouble11 elevenApart =
        elevenApart\<lparr>vertices := [Vec (- edge11) 0 0, Vec edge11 0 0]\<rparr>
   \<and> boxLongest (vertices (normalize_geom flDouble11 elevenApart)) = 2 * edge11
   \<and> 200 < boxLongest (vertices (normalize_geom flDouble11 elevenApart))"
proof -
  have "boxLongest [Vec 0 0 0] = 0"
    by (simp add: boxLongest_def boxMax_def boxMin_def)
  moreover have "vertices onePoint \<noteq> []" "vertices elevenApart \<noteq> []"
    by (simp_all add: onePoint_def elevenApart_def)
  ultimately show ?thesis
    by (simp add: onePoint_normalize elevenApart_normalize edge11_box)
qed

theorem normalize_box_witness:
  "vertices grid23 = [] \<and> normalize_geom flDouble11 grid23 = grid23
   \<and> rounding (1 / 2 ^ 53) flDouble11
   \<and> representable flDouble11 (Vec 0 0 0) \<and> representable flDouble11 (Vec 11 0 0)
   \<and> boxLongest (vertices elevenApart) = 11 \<and> boxReach vx (vertices elevenApart) = 11
   \<and> length (vertices (normalize_geom flDouble11 elevenApart)) = 2
   \<and> 200 * (1 - 1 / 2 ^ 53) ^ 3 / (1 + 1 / 2 ^ 53)
        \<le> boxLongest (vertices (normalize_geom flDouble11 elevenApart))
   \<and> boxLongest (vertices (normalize_geom flDouble11 elevenApart))
        \<le> 200 * (1 + 1 / 2 ^ 53) ^ 3 / (1 - 1 / 2 ^ 53)
   \<and> \<bar>boxCenter vx (vertices (normalize_geom flDouble11 elevenApart))\<bar>
        \<le> 1000 * (1 / 2 ^ 53) * (1 + 11 / 11)
   \<and> rounding 0 (\<lambda>x. x)
   \<and> representable (\<lambda>x. x) (Vec 1 2 3) \<and> representable (\<lambda>x. x) (Vec 5 4 3)
   \<and> boxLongest (vertices twoPoints) = 4
   \<and> normalize_geom (\<lambda>x. x) twoPoints =
        twoPoints\<lparr>vertices := [Vec (- 100) (- 50) 0, Vec 100 50 0]\<rparr>
   \<and> boxLongest (vertices (normalize_geom (\<lambda>x. x) twoPoints)) = 200
   \<and> boxCentered (vertices (normalize_geom (\<lambda>x. x) twoPoints))
   \<and> boxLongest (vertices onePoint) = 0
   \<and> vertices (normalize_geom (\<lambda>x. x) onePoint) = [Vec 0 0 0]
   \<and> boxCentered (vertices (normalize_geom (\<lambda>x. x) onePoint))
   \<and> boxLongest (vertices (normalize_geom (\<lambda>x. x) onePoint)) = 0"
proof -
  have empty: "vertices grid23 = []" by (simp add: grid23_def)
  have noop: "normalize_geom flDouble11 grid23 = grid23"
    using normalize_box [of grid23 flDouble11, THEN conjunct1] empty by blast
  have rep11: "representable flDouble11 (Vec 0 0 0)" "representable flDouble11 (Vec 11 0 0)"
    by (simp_all add: representable_def flDouble11_values)
  have hyp11: "vertices elevenApart \<noteq> [] \<and> rounding (1 / 2 ^ 53) flDouble11
        \<and> (1 / 2 ^ 53 :: real) \<le> 1 / 4
        \<and> (\<forall>v \<in> set (vertices elevenApart). representable flDouble11 v)"
  proof (intro conjI)
    show "vertices elevenApart \<noteq> []" by (simp add: elevenApart_def)
    show "rounding (1 / 2 ^ 53) flDouble11" by (rule rounding_flDouble11)
    show "(1 / 2 ^ 53 :: real) \<le> 1 / 4" by simp
    show "\<forall>v \<in> set (vertices elevenApart). representable flDouble11 v"
      using rep11 by (simp add: elevenApart_def)
  qed
  have L11: "boxLongest (vertices elevenApart) = 11" "boxReach vx (vertices elevenApart) = 11"
    by (simp_all add: elevenApart_def boxLongest_def boxReach_def boxMax_def boxMin_def)
  have pos11: "0 < boxLongest (vertices elevenApart)"
    using normalize_box [of elevenApart flDouble11 "1 / 2 ^ 53" "Vec 0 0 0" "Vec 11 0 0",
        THEN conjunct2, THEN conjunct2]
    by (simp add: elevenApart_def)
  note c11 = normalize_box [of elevenApart flDouble11 "1 / 2 ^ 53",
      THEN conjunct2, THEN conjunct1, THEN mp, OF hyp11]
  have len11: "length (vertices (normalize_geom flDouble11 elevenApart)) = 2"
    using c11 [THEN conjunct2, THEN conjunct1] by (simp add: elevenApart_def)
  note b11 = c11 [THEN conjunct2, THEN conjunct2, THEN conjunct2, THEN conjunct2,
      THEN mp, OF pos11]
  have lo11: "200 * (1 - 1 / 2 ^ 53) ^ 3 / (1 + 1 / 2 ^ 53)
        \<le> boxLongest (vertices (normalize_geom flDouble11 elevenApart))"
    using b11 [THEN conjunct1] .
  have hi11: "boxLongest (vertices (normalize_geom flDouble11 elevenApart))
        \<le> 200 * (1 + 1 / 2 ^ 53) ^ 3 / (1 - 1 / 2 ^ 53)"
    using b11 [THEN conjunct2, THEN conjunct1] .
  have ce11: "\<bar>boxCenter vx (vertices (normalize_geom flDouble11 elevenApart))\<bar>
        \<le> 1000 * (1 / 2 ^ 53) * (1 + 11 / 11)"
    using b11 [THEN conjunct2, THEN conjunct2, THEN conjunct1] unfolding L11 .
  have rep2: "representable (\<lambda>x. x) (Vec 1 2 3)" "representable (\<lambda>x. x) (Vec 5 4 3)"
    by (simp_all add: representable_def)
  have hyp2: "vertices twoPoints \<noteq> [] \<and> rounding 0 (\<lambda>x. x) \<and> (0 :: real) \<le> 1 / 4
        \<and> (\<forall>v \<in> set (vertices twoPoints). representable (\<lambda>x. x) v)"
    using rep2 by (simp add: twoPoints_def rounding_exact)
  have L2: "boxLongest (vertices twoPoints) = 4"
    by (simp add: twoPoints_def boxLongest_def boxMax_def boxMin_def)
  have pos2: "0 < boxLongest (vertices twoPoints)" by (simp add: L2)
  note b2 = normalize_box [of twoPoints "\<lambda>x. x" 0,
      THEN conjunct2, THEN conjunct1, THEN mp, OF hyp2,
      THEN conjunct2, THEN conjunct2, THEN conjunct2, THEN conjunct2, THEN mp, OF pos2]
  have long2: "boxLongest (vertices (normalize_geom (\<lambda>x. x) twoPoints)) = 200"
    using b2 [THEN conjunct1] b2 [THEN conjunct2, THEN conjunct1] by simp
  have cent2: "boxCentered (vertices (normalize_geom (\<lambda>x. x) twoPoints))"
    using b2 [THEN conjunct2, THEN conjunct2] by (simp add: boxCentered_def)
  have hyp1: "vertices onePoint \<noteq> [] \<and> rounding 0 (\<lambda>x. x) \<and> (0 :: real) \<le> 1 / 4
        \<and> (\<forall>v \<in> set (vertices onePoint). representable (\<lambda>x. x) v)"
    by (simp add: onePoint_def rounding_exact representable_def)
  have L1: "boxLongest (vertices onePoint) = 0"
    by (simp add: onePoint_def boxLongest_def boxMax_def boxMin_def)
  note b1 = normalize_box [of onePoint "\<lambda>x. x" 0,
      THEN conjunct2, THEN conjunct1, THEN mp, OF hyp1,
      THEN conjunct2, THEN conjunct2, THEN conjunct2, THEN conjunct1, THEN mp, OF L1]
  have v1: "vertices (normalize_geom (\<lambda>x. x) onePoint) = [Vec 0 0 0]"
    using b1 [THEN conjunct1] by (simp add: onePoint_def)
  from empty noop rounding_flDouble11 rep11 L11 len11 lo11 hi11 ce11 rounding_exact rep2 L2
    twoPoints_normalize long2 cent2 L1 v1 b1 [THEN conjunct2, THEN conjunct1]
    b1 [THEN conjunct2, THEN conjunct2]
  show ?thesis by (intro conjI)
qed

section \<open>Properties of the stroke tessellation\<close>

declare edgesLoop.simps [simp del]

lemma magSq_vmult: "magSq (vmult v k) = k * k * magSq v"
  by (cases v) (simp add: algebra_simps)

lemma vsub_eq_zero_iff: "vsub w v = Vec 0 0 0 \<longleftrightarrow> v = w"
  by (cases v; cases w) auto

lemma magSq_vnormalize:
  assumes "v \<noteq> Vec 0 0 0"
  shows "magSq (vnormalize v) = 1"
proof -
  have pos: "0 < magSq v"
    using assms magSq_nonneg [of v] magSq_zero_iff [of v] by linarith
  then have len: "mag v \<noteq> 0" and sq: "mag v * mag v = magSq v"
    by (simp_all add: mag_def)
  have "magSq (vnormalize v) = (1 / mag v) * (1 / mag v) * magSq v"
    using len by (simp add: vnormalize_def magSq_vmult)
  also have "\<dots> = magSq v / (mag v * mag v)" by simp
  also have "\<dots> = 1" using pos by (simp add: sq)
  finally show ?thesis .
qed

lemma vnormalize_zero: "vnormalize (Vec 0 0 0) = Vec 0 0 0"
  by (simp add: vnormalize_def mag_def)

lemma dirOK_iff: "0 < magSq (vnormalize (vsub w v)) \<longleftrightarrow> v \<noteq> w"
proof (cases "v = w")
  case True
  then show ?thesis by (simp add: vsub_self vnormalize_zero)
next
  case False
  then have "vsub w v \<noteq> Vec 0 0 0" by (simp add: vsub_eq_zero_iff)
  then show ?thesis using False by (simp add: magSq_vnormalize)
qed

lemma vdot_self: "vdot v v = magSq v"
  by (cases v) simp

lemma edgesLoop_stop: "edgesLoop n n st = Inr st"
  by (subst edgesLoop.simps) simp

lemma edgesLoop_step:
  "i < n \<Longrightarrow> edgeStep i st = Inr st' \<Longrightarrow> edgesLoop n i st = edgesLoop n (Suc i) st'"
  by (subst edgesLoop.simps) simp

lemma edgesLoop_fail:
  "i < n \<Longrightarrow> edgeStep i st = Inl e \<Longrightarrow> edgesLoop n i st = Inl e"
  by (subst edgesLoop.simps) simp

lemma single_edge_result:
  assumes "edges g = [(a, b)]"
    and "a < length (vertices g)" and "b < length (vertices g)"
    and "vertices g ! a \<noteq> vertices g ! b"
  shows "edgesToVertices g = Inr (g\<lparr>
      lineVertices :=
        (varray (vertices g ! a) @ varray (vertices g ! b) @ varray (vertices g ! a)
         @ varray (vertices g ! b) @ varray (vertices g ! b) @ varray (vertices g ! a))
        @ pushTimes 6 (varray (vertices g ! a)) @ pushTimes 6 (varray (vertices g ! b)),
      lineTangentsIn :=
        pushTimes 6 (varray (vnormalize (vsub (vertices g ! b) (vertices g ! a))))
        @ pushTimes 6 (varray (vmult (vnormalize (vsub (vertices g ! b) (vertices g ! a))) (- 1)))
        @ pushTimes 6 (varray (vnormalize (vsub (vertices g ! b) (vertices g ! a)))),
      lineTangentsOut :=
        pushTimes 6 (varray (vnormalize (vsub (vertices g ! b) (vertices g ! a))))
        @ pushTimes 6 [0, 0, 0] @ pushTimes 6 [0, 0, 0],
      lineSides := [1, 1, - 1, 1, - 1, - 1] @ [- 1, 2, - 2, 1, 2, - 1] @ [- 1, 2, - 2, 1, 2, - 1],
      lineVertexColors := lineVertexColors g
        @ (strokeColor g a @ strokeColor g b @ strokeColor g a
           @ strokeColor g b @ strokeColor g b @ strokeColor g a)
        @ pushTimes 6 (strokeColor g a) @ pushTimes 6 (strokeColor g b)\<rparr>)"
proof -
  let ?g0 = "g\<lparr>lineVertices := [], lineTangentsIn := [], lineTangentsOut := [],
                lineSides := []\<rparr>"
  let ?st0 = "\<lparr>geom = ?g0, potentialCaps = [], connected = {}, lastValidDir = None\<rparr>"
  let ?A = "vertices g ! a" and ?B = "vertices g ! b"
  let ?dir = "vnormalize (vsub ?B ?A)"
  have ab: "a \<noteq> b" using assms(4) by auto
  have ok: "0 < magSq ?dir" using assms(4) by (simp add: dirOK_iff)
  let ?st1 = "\<lparr>geom = addSegment ?g0 ?A ?B (strokeColor g a) (strokeColor g b) ?dir,
               potentialCaps =
                 [(a, \<lparr>cap_point = ?A, cap_dir = vmult ?dir (- 1), cap_color = strokeColor g a\<rparr>),
                  (b, \<lparr>cap_point = ?B, cap_dir = ?dir, cap_color = strokeColor g b\<rparr>)],
               connected = {}, lastValidDir = Some ?dir\<rparr>"
  have col: "strokeColor ?g0 a = strokeColor g a" "strokeColor ?g0 b = strokeColor g b"
    by (simp_all add: strokeColor_def)
  have step: "edgeStep 0 ?st0 = Inr ?st1"
    using assms(1-3) ab ok
    by (simp add: edgeStep_def vertexAt_def Let_def col startLine_def closePrevious_def
          finishLine_def capsGet_def)
  have "edgesLoop (length (edges ?g0)) 0 ?st0 = Inr ?st1"
    using assms(1) edgesLoop_step [of 0 "Suc 0" ?st0 ?st1, OF _ step]
    by (simp add: edgesLoop_stop)
  then show ?thesis
    by (simp add: edgesToVertices_def Let_def addSegment_def addCap_def)
qed

text \<open>
  Claim C2. An edge list of one edge between two vertices at different positions gives
  eighteen stroke vertices: the six of the segment, then the six of the cap at the
  start vertex and the six of the cap at the end vertex; the tangent-out of all twelve
  cap vertices is the zero vector.
\<close>

theorem single_edge_vertices:
  assumes "edges g = [(a, b)]"
    and "a < length (vertices g)" and "b < length (vertices g)"
    and "vertices g ! a \<noteq> vertices g ! b"
  shows "\<exists>g'. edgesToVertices g = Inr g'
     \<and> length (lineSides g') = 18
     \<and> length (lineVertices g') = 3 * 18
     \<and> length (lineTangentsIn g') = 3 * 18
     \<and> length (lineTangentsOut g') = 3 * 18
     \<and> lineSides g' = [1, 1, - 1, 1, - 1, - 1] @ [- 1, 2, - 2, 1, 2, - 1] @ [- 1, 2, - 2, 1, 2, - 1]
     \<and> lineVertices g' =
        (varray (vertices g ! a) @ varray (vertices g ! b) @ varray (vertices g ! a)
         @ varray (vertices g ! b) @ varray (vertices g ! b) @ varray (vertices g ! a))
        @ pushTimes 6 (varray (vertices g ! a)) @ pushTimes 6 (varray (vertices g ! b))
     \<and> take (3 * 6) (lineTangentsOut g') =
        pushTimes 6 (varray (vnormalize (vsub (vertices g ! b) (vertices g ! a))))
     \<and> drop (3 * 6) (lineTangentsOut g') = replicate (3 * 12) 0"
proof -
  have len3: "\<And>v. length (varray v) = 3"
  proof -
    fix v show "length (varray v) = 3" by (cases v) simp
  qed
  have six: "\<And>xs :: real list. length (pushTimes 6 xs) = 6 * length xs"
    by (simp add: pushTimes_def length_concat sum_list_replicate)
  have zeros: "pushTimes 6 [0, 0, 0 :: real] @ pushTimes 6 [0, 0, 0] = replicate 36 0"
    by (simp add: pushTimes_def numeral_eq_Suc)
  show ?thesis
    unfolding single_edge_result [OF assms]
    by (simp add: len3 six zeros)
qed

lemma vnormalize_unit:
  "vnormalize (Vec 1 0 0) = Vec 1 0 0" "vnormalize (Vec 0 1 0) = Vec 0 1 0"
  by (simp_all add: vnormalize_def mag_def)

theorem single_edge_vertices_witness:
  "edges unitEdge = [(0, 1)]
   \<and> 0 < length (vertices unitEdge) \<and> 1 < length (vertices unitEdge)
   \<and> vertices unitEdge ! 0 \<noteq> vertices unitEdge ! 1
   \<and> (\<exists>g'. edgesToVertices unitEdge = Inr g'
     \<and> length (lineSides g') = 18
     \<and> lineSides g' = [1, 1, - 1, 1, - 1, - 1, - 1, 2, - 2, 1, 2, - 1, - 1, 2, - 2, 1, 2, - 1]
     \<and> lineVertices g' =
          [0, 0, 0, 1, 0, 0, 0, 0, 0, 1, 0, 0, 1, 0, 0, 0, 0, 0] @ replicate 18 0
          @ [1, 0, 0, 1, 0, 0, 1, 0, 0, 1, 0, 0, 1, 0, 0, 1, 0, 0]
     \<and> take 18 (lineTangentsOut g') = [1, 0, 0, 1, 0, 0, 1, 0, 0, 1, 0, 0, 1, 0, 0, 1, 0, 0]
     \<and> drop 18 (lineTangentsOut g') = replicate 36 0)"
proof -
  have h: "edges unitEdge = [(0, 1)]" "0 < length (vertices unitEdge)"
    "1 < length (vertices unitEdge)" "vertices unitEdge ! 0 \<noteq> vertices unitEdge ! 1"
    by (simp_all add: unitEdge_def polyline_def)
  have vs: "vertices unitEdge ! 0 = Vec 0 0 0" "vertices unitEdge ! 1 = Vec 1 0 0"
    by (simp_all add: unitEdge_def polyline_def)
  have six: "\<And>x y z :: real. pushTimes 6 [x, y, z] =
               [x, y, z, x, y, z, x, y, z, x, y, z, x, y, z, x, y, z]"
    by (simp add: pushTimes_def numeral_eq_Suc)
  have zeros: "replicate 18 (0::real) = pushTimes 6 [0, 0, 0]"
    by (simp add: pushTimes_def numeral_eq_Suc)
  from single_edge_vertices [OF h] obtain g' where
    res: "edgesToVertices unitEdge = Inr g'"
    and n: "length (lineSides g') = 18"
    and sides: "lineSides g' =
        [1, 1, - 1, 1, - 1, - 1] @ [- 1, 2, - 2, 1, 2, - 1] @ [- 1, 2, - 2, 1, 2, - 1]"
    and verts: "lineVertices g' =
        (varray (vertices unitEdge ! 0) @ varray (vertices unitEdge ! 1)
         @ varray (vertices unitEdge ! 0) @ varray (vertices unitEdge ! 1)
         @ varray (vertices unitEdge ! 1) @ varray (vertices unitEdge ! 0))
        @ pushTimes 6 (varray (vertices unitEdge ! 0))
        @ pushTimes 6 (varray (vertices unitEdge ! 1))"
    and tout: "take (3 * 6) (lineTangentsOut g') =
        pushTimes 6 (varray (vnormalize (vsub (vertices unitEdge ! 1) (vertices unitEdge ! 0))))"
    and caps: "drop (3 * 6) (lineTangentsOut g') = replicate (3 * 12) 0"
    by blast
  have "lineVertices g' =
          [0, 0, 0, 1, 0, 0, 0, 0, 0, 1, 0, 0, 1, 0, 0, 0, 0, 0] @ replicate 18 0
          @ [1, 0, 0, 1, 0, 0, 1, 0, 0, 1, 0, 0, 1, 0, 0, 1, 0, 0]"
    unfolding verts vs zeros by (simp add: six)
  moreover have "take 18 (lineTangentsOut g') =
          [1, 0, 0, 1, 0, 0, 1, 0, 0, 1, 0, 0, 1, 0, 0, 1, 0, 0]"
    using tout unfolding vs by (simp add: vnormalize_unit six)
  moreover have "drop 18 (lineTangentsOut g') = replicate 36 0"
    using caps by simp
  moreover have "lineSides g' =
          [1, 1, - 1, 1, - 1, - 1, - 1, 2, - 2, 1, 2, - 1, - 1, 2, - 2, 1, 2, - 1]"
    using sides by simp
  ultimately show ?thesis
    using h res n by blast
qed

subsection \<open>The stored direction\<close>

lemma continueLine_lastValidDir:
  "lastValidDir (continueLine st v p d ok c) = lastValidDir st"
  by (simp add: continueLine_def Let_def split: option.splits)

lemma startLine_lastValidDir:
  "lastValidDir (startLine st v p d ok c) = lastValidDir st"
  by (simp add: startLine_def split: option.splits)

lemma startLine_degenerate: "startLine st v p d False c = st"
  by (simp add: startLine_def)

lemma finishLine_lastValidDir:
  "lastValidDir (finishLine st v p d c) = lastValidDir st"
  by (simp add: finishLine_def split: option.splits)

lemma closePrevious_lastValidDir:
  assumes "closePrevious st pe c = Inr st'"
  shows "lastValidDir st' =
           (if lastValidDir st \<noteq> None \<and> snd (the pe) \<notin> connected st then None
            else lastValidDir st)"
  using assms
  by (auto simp: closePrevious_def split: option.splits if_splits sum.splits)

lemma edgesLoop_Suc:
  "i \<le> n \<Longrightarrow>
   edgesLoop (Suc n) i st =
     (case edgesLoop n i st of Inl e \<Rightarrow> Inl e | Inr st' \<Rightarrow> edgeStep n st')"
proof (induction "n - i" arbitrary: i st)
  case 0
  then have "i = n" by simp
  then show ?case
    by (subst edgesLoop.simps) (simp add: edgesLoop_stop split: sum.splits)
next
  case (Suc k)
  then have lt: "i < n" and k: "k = n - Suc i" by simp_all
  show ?case
  proof (cases "edgeStep i st")
    case (Inl e)
    with lt show ?thesis by (simp add: edgesLoop_fail)
  next
    case (Inr st1)
    have "edgesLoop (Suc n) i st = edgesLoop (Suc n) (Suc i) st1"
      using lt Inr by (intro edgesLoop_step) simp_all
    moreover have "edgesLoop n i st = edgesLoop n (Suc i) st1"
      using lt Inr by (intro edgesLoop_step) simp_all
    ultimately show ?thesis
      using Suc.hyps(1) [OF k, of st1] lt by simp
  qed
qed

lemma edgeStep_lastValidDir:
  assumes "edgeStep i st = Inr st'"
  shows "(edgeDirOK (geom st) i \<longrightarrow> lastValidDir st' = Some (edgeDir (geom st) i))
   \<and> (\<not> edgeDirOK (geom st) i \<longrightarrow>
        lastValidDir st' =
          (if 0 < i \<and> snd (edges (geom st) ! (i - 1)) = fst (edges (geom st) ! i)
           then lastValidDir st
           else if lastValidDir st \<noteq> None \<and> snd (edges (geom st) ! (i - 1)) \<notin> connected st
                then None else lastValidDir st))"
proof -
  let ?g = "geom st"
  let ?e = "edges ?g ! i"
  from assms obtain p q where p: "vertexAt ?g (fst ?e) = Inr p"
    and q: "vertexAt ?g (snd ?e) = Inr q"
    by (auto simp: edgeStep_def Let_def split: sum.splits)
  then have pq: "p = vertices ?g ! fst ?e" "q = vertices ?g ! snd ?e"
    by (auto simp: vertexAt_def split: if_splits)
  have dir: "vnormalize (vsub q p) = edgeDir ?g i"
    by (simp add: edgeDir_def pq)
  show ?thesis
  proof (cases "edgeDirOK ?g i")
    case True
    then have "0 < magSq (vnormalize (vsub q p))" by (simp add: edgeDirOK_def dir)
    with assms p q True show ?thesis
      by (auto simp: edgeStep_def Let_def dir split: sum.splits if_splits)
  next
    case False
    then have no: "\<not> 0 < magSq (vnormalize (vsub q p))" by (simp add: edgeDirOK_def dir)
    show ?thesis
    proof (cases "0 < i \<and> snd (edges ?g ! (i - 1)) = fst ?e")
      case True
      with assms p q no False show ?thesis
        by (auto simp: edgeStep_def Let_def continueLine_lastValidDir
              finishLine_lastValidDir split: sum.splits if_splits)
    next
      case disc: False
      let ?pe = "if 0 < i then Some (edges ?g ! (i - 1)) else None"
      from assms p q no disc obtain st2 where
        st2: "closePrevious st ?pe (strokeColor ?g (fst ?e)) = Inr st2"
        and st': "lastValidDir st' = lastValidDir st2"
        by (auto simp: edgeStep_def Let_def startLine_degenerate finishLine_lastValidDir
              split: sum.splits if_splits)
      have "lastValidDir st2 =
              (if lastValidDir st \<noteq> None \<and> snd (the ?pe) \<notin> connected st then None
               else lastValidDir st)"
        using st2 by (rule closePrevious_lastValidDir)
      moreover have "lastValidDir st \<noteq> None \<Longrightarrow> 0 < i"
        using st2 by (auto simp: closePrevious_def split: option.splits if_splits)
      ultimately show ?thesis
        using False disc st' by auto
    qed
  qed
qed

lemma addSegment_fixed:
  "vertices (addSegment g p q c c' d) = vertices g"
  "edges (addSegment g p q c c' d) = edges g"
  "vertexStrokeColors (addSegment g p q c c' d) = vertexStrokeColors g"
  by (simp_all add: addSegment_def Let_def)

lemma addJoin_fixed:
  "vertices (addJoin g p t t' c) = vertices g"
  "edges (addJoin g p t t' c) = edges g"
  "vertexStrokeColors (addJoin g p t t' c) = vertexStrokeColors g"
  by (simp_all add: addJoin_def Let_def)

lemma strokeInit_fixed:
  "vertices (geom (strokeInit g)) = vertices g"
  "edges (geom (strokeInit g)) = edges g"
  "vertexStrokeColors (geom (strokeInit g)) = vertexStrokeColors g"
  "lastValidDir (strokeInit g) = None"
  "connected (strokeInit g) = {}"
  "potentialCaps (strokeInit g) = []"
  by (simp_all add: strokeInit_def)

lemma lastDirAfter_Suc:
  assumes "edgesLoop n 0 (strokeInit g) = Inr st" and "edgeStep n st = Inr st'"
  shows "edgesLoop (Suc n) 0 (strokeInit g) = Inr st'"
    and "lastDirAfter g (Suc n) = Inr (lastValidDir st')"
  using assms by (simp_all add: edgesLoop_Suc lastDirAfter_def)

lemma closePrevious_closes:
  assumes "closePrevious st pe c = Inr st2" and "lastValidDir st = Some lvd"
    and "pe = Some e" and "snd e \<notin> connected st"
  shows "snd e < length (vertices (geom st)) \<and> lastValidDir st2 = None
    \<and> (\<forall>cap. capsGet (potentialCaps st) (snd e) = Some cap \<longrightarrow>
          geom st2 = addJoin (geom st) (vertices (geom st) ! snd e) lvd
                       (vmult (cap_dir cap) (- 1)) c
          \<and> potentialCaps st2 = capsDelete (potentialCaps st) (snd e)
          \<and> connected st2 = insert (snd e) (connected st))
    \<and> (capsGet (potentialCaps st) (snd e) = None \<longrightarrow>
          geom st2 = geom st
          \<and> potentialCaps st2 =
              capsSet (potentialCaps st) (snd e)
                \<lparr>cap_point = vertices (geom st) ! snd e, cap_dir = lvd, cap_color = c\<rparr>
          \<and> connected st2 = connected st)"
  using assms
  by (auto simp: closePrevious_def vertexAt_def split: option.splits if_splits sum.splits)

lemma edgeStep_closes:
  assumes "edgeStep i st = Inr st'" and "\<not> edgeDirOK (geom st) i"
    and "\<not> (0 < i \<and> snd (edges (geom st) ! (i - 1)) = fst (edges (geom st) ! i))"
    and "lastValidDir st = Some lvd"
    and "snd (edges (geom st) ! (i - 1)) \<notin> connected st"
  shows "\<exists>st2.
      st' = (if i = length (edges (geom st)) - 1
             then finishLine st2 (snd (edges (geom st) ! i))
                    (vertices (geom st) ! snd (edges (geom st) ! i)) (edgeDir (geom st) i)
                    (strokeColor (geom st) (snd (edges (geom st) ! i)))
             else st2)
    \<and> 0 < i \<and> snd (edges (geom st) ! (i - 1)) < length (vertices (geom st))
    \<and> lastValidDir st2 = None
    \<and> (\<forall>cap. capsGet (potentialCaps st) (snd (edges (geom st) ! (i - 1))) = Some cap \<longrightarrow>
          geom st2 = addJoin (geom st) (vertices (geom st) ! snd (edges (geom st) ! (i - 1)))
                       lvd (vmult (cap_dir cap) (- 1))
                       (strokeColor (geom st) (fst (edges (geom st) ! i)))
          \<and> potentialCaps st2 =
              capsDelete (potentialCaps st) (snd (edges (geom st) ! (i - 1)))
          \<and> connected st2 = insert (snd (edges (geom st) ! (i - 1))) (connected st))
    \<and> (capsGet (potentialCaps st) (snd (edges (geom st) ! (i - 1))) = None \<longrightarrow>
          geom st2 = geom st
          \<and> potentialCaps st2 =
              capsSet (potentialCaps st) (snd (edges (geom st) ! (i - 1)))
                \<lparr>cap_point = vertices (geom st) ! snd (edges (geom st) ! (i - 1)),
                 cap_dir = lvd,
                 cap_color = strokeColor (geom st) (fst (edges (geom st) ! i))\<rparr>
          \<and> connected st2 = connected st)"
proof -
  let ?g = "geom st"
  let ?e = "edges ?g ! i"
  from assms(1) obtain p q where p: "vertexAt ?g (fst ?e) = Inr p"
    and q: "vertexAt ?g (snd ?e) = Inr q"
    by (auto simp: edgeStep_def Let_def split: sum.splits)
  then have pq: "p = vertices ?g ! fst ?e" "q = vertices ?g ! snd ?e"
    by (auto simp: vertexAt_def split: if_splits)
  have dir: "vnormalize (vsub q p) = edgeDir ?g i"
    by (simp add: edgeDir_def pq)
  have no: "\<not> 0 < magSq (vnormalize (vsub q p))"
    using assms(2) by (simp add: edgeDirOK_def dir)
  let ?pe = "if 0 < i then Some (edges ?g ! (i - 1)) else None"
  from assms(1) p q no assms(3) obtain st2 where
    st2: "closePrevious st ?pe (strokeColor ?g (fst ?e)) = Inr st2"
    and st': "st' = (if i = length (edges ?g) - 1
                     then finishLine st2 (snd ?e) q (vnormalize (vsub q p))
                            (strokeColor ?g (snd ?e))
                     else st2)"
    by (auto simp: edgeStep_def Let_def startLine_degenerate split: sum.splits if_splits)
  have pos: "0 < i"
    using st2 assms(4) by (auto simp: closePrevious_def split: option.splits if_splits)
  then have pe: "?pe = Some (edges ?g ! (i - 1))" by simp
  note cl = closePrevious_closes [OF st2 assms(4) pe assms(5)]
  note st'' = st' [unfolded dir, unfolded pq(2)]
  have rng: "snd (edges ?g ! (i - 1)) < length (vertices ?g)"
    using cl by blast
  show ?thesis
    apply (rule exI [of _ st2])
    apply (intro conjI)
        apply (rule st'')
       apply (rule pos)
      apply (rule rng)
     apply (rule cl [THEN conjunct2, THEN conjunct1])
    apply (rule cl [THEN conjunct2, THEN conjunct2, THEN conjunct1])
    apply (rule cl [THEN conjunct2, THEN conjunct2, THEN conjunct2])
    done
qed

text \<open>
  Claim C9, as the code has it. After edge \<open>i\<close> the stored direction is the edge's
  direction when the edge is non-degenerate. After a zero-length edge that starts at the
  end vertex of the previous edge it is what it was. After a zero-length edge that does
  not, it is what it was when nothing was stored or the end vertex of the previous edge
  is connected. Otherwise the step closes the previous line at that vertex and resets
  the stored direction to \<^verbatim>\<open>undefined\<close>: where a potential cap is pending at the vertex
  it appends a join there (tangent-in the stored direction, tangent-out the reversed
  tangent of the cap), removes the cap and marks the vertex connected; where none is
  pending it registers a potential cap there with the stored direction as tangent. After
  that only the end vertex of the last edge is still worked on.
\<close>

theorem lastValidDir_step:
  assumes "edgeStep i st = Inr st'"
  shows "(edgeDirOK (geom st) i \<longrightarrow> lastValidDir st' = Some (edgeDir (geom st) i))
   \<and> (\<not> edgeDirOK (geom st) i \<longrightarrow>
        lastValidDir st' =
          (if 0 < i \<and> snd (edges (geom st) ! (i - 1)) = fst (edges (geom st) ! i)
           then lastValidDir st
           else if lastValidDir st \<noteq> None \<and> snd (edges (geom st) ! (i - 1)) \<notin> connected st
                then None else lastValidDir st))
   \<and> (\<not> edgeDirOK (geom st) i
       \<and> \<not> (0 < i \<and> snd (edges (geom st) ! (i - 1)) = fst (edges (geom st) ! i))
       \<and> lastValidDir st = Some lvd
       \<and> snd (edges (geom st) ! (i - 1)) \<notin> connected st \<longrightarrow>
       (\<exists>st2.
          st' = (if i = length (edges (geom st)) - 1
                 then finishLine st2 (snd (edges (geom st) ! i))
                        (vertices (geom st) ! snd (edges (geom st) ! i)) (edgeDir (geom st) i)
                        (strokeColor (geom st) (snd (edges (geom st) ! i)))
                 else st2)
        \<and> 0 < i \<and> snd (edges (geom st) ! (i - 1)) < length (vertices (geom st))
        \<and> lastValidDir st2 = None
        \<and> (\<forall>cap. capsGet (potentialCaps st) (snd (edges (geom st) ! (i - 1))) = Some cap \<longrightarrow>
              geom st2 =
                addJoin (geom st) (vertices (geom st) ! snd (edges (geom st) ! (i - 1)))
                  lvd (vmult (cap_dir cap) (- 1))
                  (strokeColor (geom st) (fst (edges (geom st) ! i)))
              \<and> potentialCaps st2 =
                  capsDelete (potentialCaps st) (snd (edges (geom st) ! (i - 1)))
              \<and> connected st2 = insert (snd (edges (geom st) ! (i - 1))) (connected st))
        \<and> (capsGet (potentialCaps st) (snd (edges (geom st) ! (i - 1))) = None \<longrightarrow>
              geom st2 = geom st
              \<and> potentialCaps st2 =
                  capsSet (potentialCaps st) (snd (edges (geom st) ! (i - 1)))
                    \<lparr>cap_point = vertices (geom st) ! snd (edges (geom st) ! (i - 1)),
                     cap_dir = lvd,
                     cap_color = strokeColor (geom st) (fst (edges (geom st) ! i))\<rparr>
              \<and> connected st2 = connected st)))"
proof (intro conjI)
  show "edgeDirOK (geom st) i \<longrightarrow> lastValidDir st' = Some (edgeDir (geom st) i)"
    using edgeStep_lastValidDir [OF assms] by blast
  show "\<not> edgeDirOK (geom st) i \<longrightarrow>
        lastValidDir st' =
          (if 0 < i \<and> snd (edges (geom st) ! (i - 1)) = fst (edges (geom st) ! i)
           then lastValidDir st
           else if lastValidDir st \<noteq> None \<and> snd (edges (geom st) ! (i - 1)) \<notin> connected st
                then None else lastValidDir st)"
    using edgeStep_lastValidDir [OF assms] by blast
  show "\<not> edgeDirOK (geom st) i
       \<and> \<not> (0 < i \<and> snd (edges (geom st) ! (i - 1)) = fst (edges (geom st) ! i))
       \<and> lastValidDir st = Some lvd
       \<and> snd (edges (geom st) ! (i - 1)) \<notin> connected st \<longrightarrow>
       (\<exists>st2.
          st' = (if i = length (edges (geom st)) - 1
                 then finishLine st2 (snd (edges (geom st) ! i))
                        (vertices (geom st) ! snd (edges (geom st) ! i)) (edgeDir (geom st) i)
                        (strokeColor (geom st) (snd (edges (geom st) ! i)))
                 else st2)
        \<and> 0 < i \<and> snd (edges (geom st) ! (i - 1)) < length (vertices (geom st))
        \<and> lastValidDir st2 = None
        \<and> (\<forall>cap. capsGet (potentialCaps st) (snd (edges (geom st) ! (i - 1))) = Some cap \<longrightarrow>
              geom st2 =
                addJoin (geom st) (vertices (geom st) ! snd (edges (geom st) ! (i - 1)))
                  lvd (vmult (cap_dir cap) (- 1))
                  (strokeColor (geom st) (fst (edges (geom st) ! i)))
              \<and> potentialCaps st2 =
                  capsDelete (potentialCaps st) (snd (edges (geom st) ! (i - 1)))
              \<and> connected st2 = insert (snd (edges (geom st) ! (i - 1))) (connected st))
        \<and> (capsGet (potentialCaps st) (snd (edges (geom st) ! (i - 1))) = None \<longrightarrow>
              geom st2 = geom st
              \<and> potentialCaps st2 =
                  capsSet (potentialCaps st) (snd (edges (geom st) ! (i - 1)))
                    \<lparr>cap_point = vertices (geom st) ! snd (edges (geom st) ! (i - 1)),
                     cap_dir = lvd,
                     cap_color = strokeColor (geom st) (fst (edges (geom st) ! i))\<rparr>
              \<and> connected st2 = connected st))"
  proof
    assume h: "\<not> edgeDirOK (geom st) i
       \<and> \<not> (0 < i \<and> snd (edges (geom st) ! (i - 1)) = fst (edges (geom st) ! i))
       \<and> lastValidDir st = Some lvd
       \<and> snd (edges (geom st) ! (i - 1)) \<notin> connected st"
    show "\<exists>st2.
          st' = (if i = length (edges (geom st)) - 1
                 then finishLine st2 (snd (edges (geom st) ! i))
                        (vertices (geom st) ! snd (edges (geom st) ! i)) (edgeDir (geom st) i)
                        (strokeColor (geom st) (snd (edges (geom st) ! i)))
                 else st2)
        \<and> 0 < i \<and> snd (edges (geom st) ! (i - 1)) < length (vertices (geom st))
        \<and> lastValidDir st2 = None
        \<and> (\<forall>cap. capsGet (potentialCaps st) (snd (edges (geom st) ! (i - 1))) = Some cap \<longrightarrow>
              geom st2 =
                addJoin (geom st) (vertices (geom st) ! snd (edges (geom st) ! (i - 1)))
                  lvd (vmult (cap_dir cap) (- 1))
                  (strokeColor (geom st) (fst (edges (geom st) ! i)))
              \<and> potentialCaps st2 =
                  capsDelete (potentialCaps st) (snd (edges (geom st) ! (i - 1)))
              \<and> connected st2 = insert (snd (edges (geom st) ! (i - 1))) (connected st))
        \<and> (capsGet (potentialCaps st) (snd (edges (geom st) ! (i - 1))) = None \<longrightarrow>
              geom st2 = geom st
              \<and> potentialCaps st2 =
                  capsSet (potentialCaps st) (snd (edges (geom st) ! (i - 1)))
                    \<lparr>cap_point = vertices (geom st) ! snd (edges (geom st) ! (i - 1)),
                     cap_dir = lvd,
                     cap_color = strokeColor (geom st) (fst (edges (geom st) ! i))\<rparr>
              \<and> connected st2 = connected st)"
      using h by (intro edgeStep_closes [OF assms]) simp_all
  qed
qed

lemma afterLoop:
  assumes "edgesLoop n 0 (strokeInit g) = Inr st"
  shows "lastDirAfter g n = Inr (lastValidDir st)"
    and "capsAfter g n = Inr (potentialCaps st)"
    and "sidesAfter g n = Inr (lineSides (geom st))"
  using assms by (simp_all add: lastDirAfter_def capsAfter_def sidesAfter_def)

theorem lastValidDir_step_witness:
  "lastDirAfter pausedLine 1 = Inr (Some (Vec 1 0 0))
   \<and> \<not> edgeDirOK pausedLine 1
   \<and> snd (edges pausedLine ! 0) = fst (edges pausedLine ! 1)
   \<and> lastDirAfter pausedLine 2 = Inr (Some (Vec 1 0 0))
   \<and> lastDirAfter strayPoint 1 = Inr (Some (Vec 1 0 0))
   \<and> \<not> edgeDirOK strayPoint 1
   \<and> snd (edges strayPoint ! 0) \<noteq> fst (edges strayPoint ! 1)
   \<and> capsAfter strayPoint 1 =
        Inr [(0, \<lparr>cap_point = Vec 0 0 0, cap_dir = Vec (- 1) 0 0, cap_color = [0, 0, 0, 0]\<rparr>)]
   \<and> lastDirAfter strayPoint 2 = Inr None
   \<and> capsAfter strayPoint 2 =
        Inr [(0, \<lparr>cap_point = Vec 0 0 0, cap_dir = Vec (- 1) 0 0, cap_color = [0, 0, 0, 0]\<rparr>),
             (1, \<lparr>cap_point = Vec 1 0 0, cap_dir = Vec 1 0 0, cap_color = [0, 0, 0, 0]\<rparr>),
             (2, \<lparr>cap_point = Vec 5 5 5, cap_dir = Vec 0 0 0, cap_color = [0, 0, 0, 0]\<rparr>)]
   \<and> lastDirAfter crossing 2 = Inr (Some (Vec 1 0 0))
   \<and> sidesAfter crossing 2 = Inr ([1, 1, - 1, 1, - 1, - 1] @ [1, 1, - 1, 1, - 1, - 1])
   \<and> \<not> edgeDirOK crossing 2
   \<and> snd (edges crossing ! 1) \<noteq> fst (edges crossing ! 2)
   \<and> lastDirAfter crossing 3 = Inr None
   \<and> sidesAfter crossing 3 =
        Inr ([1, 1, - 1, 1, - 1, - 1] @ [1, 1, - 1, 1, - 1, - 1]
             @ [- 1, - 3, - 2, - 1, 0, - 3, 3, 1, 2, 3, 0, 1])"
proof -
  let ?z = "[0, 0, 0, 0] :: real list"
  let ?capA = "\<lparr>cap_point = Vec 0 0 0, cap_dir = Vec (- 1) 0 0, cap_color = ?z\<rparr>"
  note g1 = addSegment_fixed strokeInit_fixed

  let ?p0 = "strokeInit pausedLine"
  let ?pg1 = "addSegment (geom ?p0) (Vec 0 0 0) (Vec 1 0 0) ?z ?z (Vec 1 0 0)"
  let ?p1 = "\<lparr>geom = ?pg1, potentialCaps = [(0, ?capA)], connected = {},
              lastValidDir = Some (Vec 1 0 0)\<rparr>"
  have ploop0: "edgesLoop 0 0 ?p0 = Inr ?p0" by (rule edgesLoop_stop)
  have pstep0: "edgeStep 0 ?p0 = Inr ?p1"
    by (simp add: edgeStep_def strokeInit_def pausedLine_def polyline_def vertexAt_def
          strokeColor_def Let_def vnormalize_unit startLine_def closePrevious_def capsGet_def)
  have pes: "edges pausedLine = [(0, 1), (1, 1)]" "vertices pausedLine = [Vec 0 0 0, Vec 1 0 0]"
    by (simp_all add: pausedLine_def polyline_def)
  have pok0: "edgeDirOK (geom ?p0) 0" "edgeDir (geom ?p0) 0 = Vec 1 0 0"
    by (simp_all add: edgeDirOK_def edgeDir_def strokeInit_def pes vnormalize_unit)
  have pbad1: "\<not> edgeDirOK ?pg1 (Suc 0)" "\<not> edgeDirOK pausedLine 1"
    by (simp_all add: edgeDirOK_def edgeDir_def g1 pes vnormalize_zero)
  have pcont: "snd (edges pausedLine ! 0) = fst (edges pausedLine ! 1)"
    by (simp add: pes)
  have pd1: "lastValidDir ?p1 = Some (Vec 1 0 0)"
    using lastValidDir_step [OF pstep0, THEN conjunct1] pok0 by simp
  obtain p2 where pstep1: "edgeStep (Suc 0) ?p1 = Inr p2"
    by (simp add: edgeStep_def pes g1 vertexAt_def Let_def)
  have pd2: "lastValidDir p2 = lastValidDir ?p1"
    using lastValidDir_step [OF pstep1, THEN conjunct2, THEN conjunct1] pbad1(1) pcont
    by (simp add: g1)
  have pone: "edgesLoop (Suc 0) 0 ?p0 = Inr ?p1"
    using lastDirAfter_Suc(1) [OF ploop0 pstep0] .
  have ptwo: "edgesLoop (Suc (Suc 0)) 0 ?p0 = Inr p2"
    using lastDirAfter_Suc(1) [OF pone pstep1] .
  have paused: "lastDirAfter pausedLine 1 = Inr (Some (Vec 1 0 0))"
    "lastDirAfter pausedLine 2 = Inr (Some (Vec 1 0 0))"
    using afterLoop(1) [OF pone] afterLoop(1) [OF ptwo] pd1 pd2
    by (simp_all add: numeral_2_eq_2)

  let ?s0 = "strokeInit strayPoint"
  let ?sg1 = "addSegment (geom ?s0) (Vec 0 0 0) (Vec 1 0 0) ?z ?z (Vec 1 0 0)"
  let ?s1 = "\<lparr>geom = ?sg1, potentialCaps = [(0, ?capA)], connected = {},
              lastValidDir = Some (Vec 1 0 0)\<rparr>"
  have ses: "edges strayPoint = [(0, 1), (2, 2)]"
    "vertices strayPoint = [Vec 0 0 0, Vec 1 0 0, Vec 5 5 5]"
    "vertexStrokeColors strayPoint = []"
    by (simp_all add: strayPoint_def polyline_def)
  have sloop0: "edgesLoop 0 0 ?s0 = Inr ?s0" by (rule edgesLoop_stop)
  have sstep0: "edgeStep 0 ?s0 = Inr ?s1"
    by (simp add: edgeStep_def strokeInit_def strayPoint_def polyline_def vertexAt_def
          strokeColor_def Let_def vnormalize_unit startLine_def closePrevious_def capsGet_def)
  have sone: "edgesLoop (Suc 0) 0 ?s0 = Inr ?s1"
    using lastDirAfter_Suc(1) [OF sloop0 sstep0] .
  have sg: "edges ?sg1 = [(0, 1), (2, 2)]" "vertices ?sg1 = [Vec 0 0 0, Vec 1 0 0, Vec 5 5 5]"
    by (simp_all add: g1 ses)
  have sbad: "\<not> edgeDirOK ?sg1 (Suc 0)" "\<not> edgeDirOK strayPoint 1"
    "edgeDir ?sg1 (Suc 0) = Vec 0 0 0"
    by (simp_all add: edgeDirOK_def edgeDir_def g1 ses vnormalize_zero)
  have scol: "\<And>k. strokeColor ?sg1 k = ?z"
    by (simp add: strokeColor_def g1 ses)
  obtain s2' where sstep1: "edgeStep (Suc 0) ?s1 = Inr s2'"
    by (simp add: edgeStep_def ses g1 vertexAt_def Let_def startLine_def closePrevious_def
          capsGet_def vnormalize_zero)
  have shyp: "\<not> edgeDirOK (geom ?s1) (Suc 0)
       \<and> \<not> (0 < Suc 0 \<and> snd (edges (geom ?s1) ! (Suc 0 - 1)) = fst (edges (geom ?s1) ! Suc 0))
       \<and> lastValidDir ?s1 = Some (Vec 1 0 0)
       \<and> snd (edges (geom ?s1) ! (Suc 0 - 1)) \<notin> connected ?s1"
    using sbad(1) by (simp add: sg)
  from lastValidDir_step [OF sstep1, THEN conjunct2, THEN conjunct2, rule_format, OF shyp]
  obtain st2 where
    s2': "s2' = (if Suc 0 = length (edges (geom ?s1)) - 1
                 then finishLine st2 (snd (edges (geom ?s1) ! Suc 0))
                        (vertices (geom ?s1) ! snd (edges (geom ?s1) ! Suc 0))
                        (edgeDir (geom ?s1) (Suc 0))
                        (strokeColor (geom ?s1) (snd (edges (geom ?s1) ! Suc 0)))
                 else st2)"
    and none: "lastValidDir st2 = None"
    and reg: "capsGet (potentialCaps ?s1) (snd (edges (geom ?s1) ! (Suc 0 - 1))) = None \<longrightarrow>
              geom st2 = geom ?s1
              \<and> potentialCaps st2 =
                  capsSet (potentialCaps ?s1) (snd (edges (geom ?s1) ! (Suc 0 - 1)))
                    \<lparr>cap_point = vertices (geom ?s1) ! snd (edges (geom ?s1) ! (Suc 0 - 1)),
                     cap_dir = Vec 1 0 0,
                     cap_color = strokeColor (geom ?s1) (fst (edges (geom ?s1) ! Suc 0))\<rparr>
              \<and> connected st2 = connected ?s1"
    by (elim exE conjE) (rule that, assumption+)
  have st2: "potentialCaps st2 =
               [(0, ?capA), (1, \<lparr>cap_point = Vec 1 0 0, cap_dir = Vec 1 0 0, cap_color = ?z\<rparr>)]"
    "connected st2 = {}"
    using reg by (simp_all add: sg scol capsGet_def)
  have s2: "s2' = finishLine st2 2 (Vec 5 5 5) (Vec 0 0 0) ?z"
    using s2' by (simp add: sg sbad scol)
  have scaps: "potentialCaps s2' =
        [(0, ?capA), (1, \<lparr>cap_point = Vec 1 0 0, cap_dir = Vec 1 0 0, cap_color = ?z\<rparr>),
         (2, \<lparr>cap_point = Vec 5 5 5, cap_dir = Vec 0 0 0, cap_color = ?z\<rparr>)]"
    unfolding s2 by (simp add: finishLine_def st2 capsGet_def)
  have sdir: "lastValidDir s2' = None"
    unfolding s2 using none by (simp add: finishLine_lastValidDir)
  have stwo: "edgesLoop (Suc (Suc 0)) 0 ?s0 = Inr s2'"
    using lastDirAfter_Suc(1) [OF sone sstep1] .
  have stray: "lastDirAfter strayPoint 1 = Inr (Some (Vec 1 0 0))"
    "capsAfter strayPoint 1 = Inr [(0, ?capA)]"
    "lastDirAfter strayPoint 2 = Inr None"
    "capsAfter strayPoint 2 =
        Inr [(0, ?capA), (1, \<lparr>cap_point = Vec 1 0 0, cap_dir = Vec 1 0 0, cap_color = ?z\<rparr>),
             (2, \<lparr>cap_point = Vec 5 5 5, cap_dir = Vec 0 0 0, cap_color = ?z\<rparr>)]"
    using afterLoop(1,2) [OF sone] afterLoop(1,2) [OF stwo] scaps sdir
    by (simp_all add: numeral_2_eq_2)
  have sdisc: "snd (edges strayPoint ! 0) \<noteq> fst (edges strayPoint ! 1)"
    by (simp add: ses)

  let ?c0 = "strokeInit crossing"
  let ?cap1 = "\<lparr>cap_point = Vec 1 0 0, cap_dir = Vec 0 (- 1) 0, cap_color = ?z\<rparr>"
  let ?cap2 = "\<lparr>cap_point = Vec 1 1 0, cap_dir = Vec 0 1 0, cap_color = ?z\<rparr>"
  let ?cg1 = "addSegment (geom ?c0) (Vec 1 0 0) (Vec 1 1 0) ?z ?z (Vec 0 1 0)"
  let ?c1 = "\<lparr>geom = ?cg1, potentialCaps = [(1, ?cap1)], connected = {},
              lastValidDir = Some (Vec 0 1 0)\<rparr>"
  let ?cg2 = "addSegment ?cg1 (Vec 0 0 0) (Vec 1 0 0) ?z ?z (Vec 1 0 0)"
  let ?c2 = "\<lparr>geom = ?cg2, potentialCaps = [(1, ?cap1), (0, ?capA), (2, ?cap2)],
              connected = {}, lastValidDir = Some (Vec 1 0 0)\<rparr>"
  have ces: "edges crossing = [(1, 2), (0, 1), (3, 3)]"
    "vertices crossing = [Vec 0 0 0, Vec 1 0 0, Vec 1 1 0, Vec 5 5 5]"
    "vertexStrokeColors crossing = []"
    by (simp_all add: crossing_def polyline_def)
  have cloop0: "edgesLoop 0 0 ?c0 = Inr ?c0" by (rule edgesLoop_stop)
  have cstep0: "edgeStep 0 ?c0 = Inr ?c1"
    by (simp add: edgeStep_def strokeInit_def crossing_def polyline_def vertexAt_def
          strokeColor_def Let_def vnormalize_unit startLine_def closePrevious_def capsGet_def)
  have cstep1: "edgeStep (Suc 0) ?c1 = Inr ?c2"
    by (simp add: edgeStep_def ces g1 vertexAt_def strokeColor_def Let_def vnormalize_unit
          startLine_def closePrevious_def capsGet_def)
  have cone: "edgesLoop (Suc 0) 0 ?c0 = Inr ?c1"
    using lastDirAfter_Suc(1) [OF cloop0 cstep0] .
  have ctwo: "edgesLoop (Suc (Suc 0)) 0 ?c0 = Inr ?c2"
    using lastDirAfter_Suc(1) [OF cone cstep1] .
  have cg: "edges ?cg2 = [(1, 2), (0, 1), (3, 3)]"
    "vertices ?cg2 = [Vec 0 0 0, Vec 1 0 0, Vec 1 1 0, Vec 5 5 5]"
    by (simp_all add: g1 ces)
  have cbad: "\<not> edgeDirOK ?cg2 (Suc (Suc 0))" "\<not> edgeDirOK crossing 2"
    "edgeDir ?cg2 (Suc (Suc 0)) = Vec 0 0 0"
    by (simp_all add: edgeDirOK_def edgeDir_def g1 ces vnormalize_zero numeral_2_eq_2)
  have ccol: "\<And>k. strokeColor ?cg2 k = ?z"
    by (simp add: strokeColor_def g1 ces)
  obtain c3 where cstep2: "edgeStep (Suc (Suc 0)) ?c2 = Inr c3"
    by (simp add: edgeStep_def ces g1 vertexAt_def Let_def startLine_def closePrevious_def
          capsGet_def vnormalize_zero)
  have chyp: "\<not> edgeDirOK (geom ?c2) (Suc (Suc 0))
       \<and> \<not> (0 < Suc (Suc 0)
             \<and> snd (edges (geom ?c2) ! (Suc (Suc 0) - 1)) = fst (edges (geom ?c2) ! Suc (Suc 0)))
       \<and> lastValidDir ?c2 = Some (Vec 1 0 0)
       \<and> snd (edges (geom ?c2) ! (Suc (Suc 0) - 1)) \<notin> connected ?c2"
    using cbad(1) by (simp add: cg)
  from lastValidDir_step [OF cstep2, THEN conjunct2, THEN conjunct2, rule_format, OF chyp]
  obtain ct2 where
    c3: "c3 = (if Suc (Suc 0) = length (edges (geom ?c2)) - 1
               then finishLine ct2 (snd (edges (geom ?c2) ! Suc (Suc 0)))
                      (vertices (geom ?c2) ! snd (edges (geom ?c2) ! Suc (Suc 0)))
                      (edgeDir (geom ?c2) (Suc (Suc 0)))
                      (strokeColor (geom ?c2) (snd (edges (geom ?c2) ! Suc (Suc 0))))
               else ct2)"
    and cnone: "lastValidDir ct2 = None"
    and cjoin: "\<forall>cap. capsGet (potentialCaps ?c2) (snd (edges (geom ?c2) ! (Suc (Suc 0) - 1)))
                       = Some cap \<longrightarrow>
              geom ct2 =
                addJoin (geom ?c2) (vertices (geom ?c2) ! snd (edges (geom ?c2) ! (Suc (Suc 0) - 1)))
                  (Vec 1 0 0) (vmult (cap_dir cap) (- 1))
                  (strokeColor (geom ?c2) (fst (edges (geom ?c2) ! Suc (Suc 0))))
              \<and> potentialCaps ct2 =
                  capsDelete (potentialCaps ?c2) (snd (edges (geom ?c2) ! (Suc (Suc 0) - 1)))
              \<and> connected ct2 =
                  insert (snd (edges (geom ?c2) ! (Suc (Suc 0) - 1))) (connected ?c2)"
    by (elim exE conjE) (rule that, assumption+)
  have ct2: "geom ct2 = addJoin ?cg2 (Vec 1 0 0) (Vec 1 0 0) (Vec 0 1 0) ?z"
    "potentialCaps ct2 = [(0, ?capA), (2, ?cap2)]" "connected ct2 = {1}"
    using cjoin [rule_format, of ?cap1]
    by (simp_all add: cg ccol capsGet_def capsDelete_def)
  have c3': "c3 = finishLine ct2 3 (Vec 5 5 5) (Vec 0 0 0) ?z"
    using c3 by (simp add: cg cbad ccol)
  have cgeom: "geom c3 = geom ct2"
    unfolding c3' by (simp add: finishLine_def ct2 capsGet_def)
  have csides: "lineSides (geom c3) =
        [1, 1, - 1, 1, - 1, - 1] @ [1, 1, - 1, 1, - 1, - 1]
        @ [- 1, - 3, - 2, - 1, 0, - 3, 3, 1, 2, 3, 0, 1]"
    unfolding cgeom ct2 by (simp add: addJoin_def addSegment_def Let_def strokeInit_def)
  have cdir: "lastValidDir c3 = None"
    unfolding c3' using cnone by (simp add: finishLine_lastValidDir)
  have cthree: "edgesLoop (Suc (Suc (Suc 0))) 0 ?c0 = Inr c3"
    using lastDirAfter_Suc(1) [OF ctwo cstep2] .
  have cross: "lastDirAfter crossing 2 = Inr (Some (Vec 1 0 0))"
    "sidesAfter crossing 2 = Inr ([1, 1, - 1, 1, - 1, - 1] @ [1, 1, - 1, 1, - 1, - 1])"
    "lastDirAfter crossing 3 = Inr None"
    "sidesAfter crossing 3 =
        Inr ([1, 1, - 1, 1, - 1, - 1] @ [1, 1, - 1, 1, - 1, - 1]
             @ [- 1, - 3, - 2, - 1, 0, - 3, 3, 1, 2, 3, 0, 1])"
    using afterLoop(1,3) [OF ctwo] afterLoop(1,3) [OF cthree] csides cdir
    by (simp_all add: numeral_2_eq_2 numeral_3_eq_3 addSegment_def Let_def strokeInit_def)
  have cdisc: "snd (edges crossing ! 1) \<noteq> fst (edges crossing ! 2)"
    by (simp add: ces)
  show ?thesis
    using paused pbad1(2) pcont stray sbad(2) sdisc cross cbad(2) cdisc by blast
qed

text \<open>
  The claim as stated fails: after the edge from vertex 0 to vertex 1 the direction
  \<open>(1, 0, 0)\<close> is stored; the next edge goes from vertex 2 to vertex 2, has zero length
  and does not start at vertex 1, and after it nothing is stored.
\<close>

theorem zero_length_edge_counterexample:
  "lastDirAfter strayPoint 1 = Inr (Some (Vec 1 0 0))
   \<and> \<not> edgeDirOK strayPoint 1
   \<and> lastDirAfter strayPoint 2 = Inr None"
proof -
  let ?st0 = "strokeInit strayPoint"
  let ?st1 = "\<lparr>geom = addSegment (geom ?st0) (Vec 0 0 0) (Vec 1 0 0) [0, 0, 0, 0] [0, 0, 0, 0]
                        (Vec 1 0 0),
               potentialCaps = [(0, \<lparr>cap_point = Vec 0 0 0, cap_dir = Vec (- 1) 0 0,
                                     cap_color = [0, 0, 0, 0]\<rparr>)],
               connected = {}, lastValidDir = Some (Vec 1 0 0)\<rparr>"
  let ?st2 = "?st1\<lparr>potentialCaps :=
                     [(0, \<lparr>cap_point = Vec 0 0 0, cap_dir = Vec (- 1) 0 0,
                           cap_color = [0, 0, 0, 0]\<rparr>),
                      (1, \<lparr>cap_point = Vec 1 0 0, cap_dir = Vec 1 0 0,
                           cap_color = [0, 0, 0, 0]\<rparr>),
                      (2, \<lparr>cap_point = Vec 5 5 5, cap_dir = Vec 0 0 0,
                           cap_color = [0, 0, 0, 0]\<rparr>)],
                   lastValidDir := None\<rparr>"
  have es: "edges strayPoint = [(0, 1), (2, 2)]"
    "vertices strayPoint = [Vec 0 0 0, Vec 1 0 0, Vec 5 5 5]"
    by (simp_all add: strayPoint_def polyline_def)
  have loop0: "edgesLoop 0 0 ?st0 = Inr ?st0" by (rule edgesLoop_stop)
  have step0: "edgeStep 0 ?st0 = Inr ?st1"
    by (simp add: edgeStep_def strokeInit_def strayPoint_def polyline_def vertexAt_def
          strokeColor_def Let_def vnormalize_unit startLine_def closePrevious_def capsGet_def)
  have step1: "edgeStep (Suc 0) ?st1 = Inr ?st2"
    by (simp add: edgeStep_def strokeInit_def strayPoint_def polyline_def vertexAt_def
          strokeColor_def Let_def vnormalize_zero startLine_def closePrevious_def capsGet_def
          finishLine_def addSegment_def)
  have one: "edgesLoop (Suc 0) 0 ?st0 = Inr ?st1"
    "lastDirAfter strayPoint (Suc 0) = Inr (lastValidDir ?st1)"
    using lastDirAfter_Suc [OF loop0 step0] by simp_all
  have two: "lastDirAfter strayPoint (Suc (Suc 0)) = Inr (lastValidDir ?st2)"
    using lastDirAfter_Suc(2) [OF one(1) step1] by simp
  have bad1: "\<not> edgeDirOK strayPoint 1"
    by (simp add: edgeDirOK_def edgeDir_def es vnormalize_zero)
  have "lastDirAfter strayPoint 1 = Inr (Some (Vec 1 0 0))"
    using one(2) by simp
  moreover have "lastDirAfter strayPoint 2 = Inr None"
    using two by (simp add: numeral_2_eq_2)
  ultimately show ?thesis
    using bad1 by blast
qed

subsection \<open>The pass returns on well-formed edges\<close>

lemma continueLine_fixed:
  "vertices (geom (continueLine st v p d ok c)) = vertices (geom st)"
  "edges (geom (continueLine st v p d ok c)) = edges (geom st)"
  "vertexStrokeColors (geom (continueLine st v p d ok c)) = vertexStrokeColors (geom st)"
  by (simp_all add: continueLine_def Let_def addJoin_fixed split: option.splits)

lemma startLine_fixed:
  "vertices (geom (startLine st v p d ok c)) = vertices (geom st)"
  "edges (geom (startLine st v p d ok c)) = edges (geom st)"
  "vertexStrokeColors (geom (startLine st v p d ok c)) = vertexStrokeColors (geom st)"
  by (simp_all add: startLine_def addJoin_fixed split: option.splits)

lemma finishLine_fixed:
  "vertices (geom (finishLine st v p d c)) = vertices (geom st)"
  "edges (geom (finishLine st v p d c)) = edges (geom st)"
  "vertexStrokeColors (geom (finishLine st v p d c)) = vertexStrokeColors (geom st)"
  by (simp_all add: finishLine_def addJoin_fixed split: option.splits)

lemma closePrevious_fixed:
  assumes "closePrevious st pe c = Inr st'"
  shows "vertices (geom st') = vertices (geom st)"
    and "edges (geom st') = edges (geom st)"
    and "vertexStrokeColors (geom st') = vertexStrokeColors (geom st)"
  using assms
  by (auto simp: closePrevious_def addJoin_fixed split: option.splits if_splits sum.splits)

lemma closePrevious_total:
  assumes "lastValidDir st \<noteq> None \<longrightarrow> (\<exists>e. pe = Some e \<and> snd e < length (vertices (geom st)))"
  shows "\<exists>st'. closePrevious st pe c = Inr st'"
  using assms
  by (auto simp: closePrevious_def vertexAt_def split: option.splits)

lemma edgeStep_fixed:
  assumes "edgeStep i st = Inr st'"
  shows "vertices (geom st') = vertices (geom st)"
    and "edges (geom st') = edges (geom st)"
    and "vertexStrokeColors (geom st') = vertexStrokeColors (geom st)"
  using assms
  by (auto simp: edgeStep_def Let_def continueLine_fixed startLine_fixed finishLine_fixed
        addSegment_fixed
        split: sum.splits if_splits dest: closePrevious_fixed)

lemma edgeStep_total:
  assumes "i < length (edges (geom st))" and "edgesInRange (geom st)"
    and "i = 0 \<longrightarrow> lastValidDir st = None"
  shows "\<exists>st'. edgeStep i st = Inr st'"
proof -
  let ?g = "geom st"
  let ?e = "edges ?g ! i"
  have "?e \<in> set (edges ?g)" using assms(1) by simp
  then have rng: "fst ?e < length (vertices ?g)" "snd ?e < length (vertices ?g)"
    using assms(2) by (auto simp: edgesInRange_def)
  have prev: "0 < i \<Longrightarrow> snd (edges ?g ! (i - 1)) < length (vertices ?g)"
  proof -
    assume "0 < i"
    then have "edges ?g ! (i - 1) \<in> set (edges ?g)" using assms(1) by simp
    then show ?thesis using assms(2) by (auto simp: edgesInRange_def)
  qed
  let ?dir = "vnormalize (vsub (vertices ?g ! snd ?e) (vertices ?g ! fst ?e))"
  let ?st1 = "if 0 < magSq ?dir
              then st\<lparr>geom := addSegment ?g (vertices ?g ! fst ?e) (vertices ?g ! snd ?e)
                     (strokeColor ?g (fst ?e)) (strokeColor ?g (snd ?e)) ?dir\<rparr>
              else st"
  let ?sl = "startLine ?st1 (fst ?e) (vertices ?g ! fst ?e) ?dir (0 < magSq ?dir)
               (strokeColor ?g (fst ?e))"
  let ?pe = "if 0 < i then Some (edges ?g ! (i - 1)) else None"
  have sl: "lastValidDir ?sl = lastValidDir st" "vertices (geom ?sl) = vertices ?g"
    by (simp_all add: startLine_lastValidDir startLine_fixed addSegment_fixed)
  have "lastValidDir ?sl \<noteq> None \<longrightarrow>
               (\<exists>e. ?pe = Some e \<and> snd e < length (vertices (geom ?sl)))"
  proof (cases "0 < i")
    case True
    then have "?pe = Some (edges ?g ! (i - 1))
                 \<and> snd (edges ?g ! (i - 1)) < length (vertices (geom ?sl))"
      using prev by (simp only: sl if_True simp_thms)
    then show ?thesis by blast
  next
    case False
    then show ?thesis using assms(3) by (simp only: sl) simp
  qed
  then obtain st2 where "closePrevious ?sl ?pe (strokeColor ?g (fst ?e)) = Inr st2"
    using closePrevious_total by blast
  then show ?thesis
    using rng by (simp add: edgeStep_def vertexAt_def Let_def)
qed

lemma edgesLoop_total:
  assumes "edgesInRange (geom st)" and "n \<le> length (edges (geom st))"
    and "i = 0 \<longrightarrow> lastValidDir st = None"
  shows "\<exists>st'. edgesLoop n i st = Inr st'"
  using assms
proof (induction "n - i" arbitrary: i st)
  case 0
  then show ?case by (subst edgesLoop.simps) simp
next
  case (Suc k)
  then have lt: "i < n" and k: "k = n - Suc i" by simp_all
  then have "i < length (edges (geom st))" using Suc.prems(2) by simp
  then obtain st1 where step: "edgeStep i st = Inr st1"
    using edgeStep_total Suc.prems(1,3) by blast
  have "edgesInRange (geom st1)" "n \<le> length (edges (geom st1))"
    using Suc.prems(1,2) edgeStep_fixed [OF step] by (simp_all add: edgesInRange_def)
  then have "\<exists>st'. edgesLoop n (Suc i) st1 = Inr st'"
    using Suc.hyps(1) [OF k] by simp
  then show ?case
    using edgesLoop_step [OF lt step] by simp
qed

lemma edgesToVertices_total:
  assumes "edgesInRange g"
  shows "\<exists>g'. edgesToVertices g = Inr g'"
proof -
  let ?g0 = "g\<lparr>lineVertices := [], lineTangentsIn := [], lineTangentsOut := [],
                lineSides := []\<rparr>"
  let ?st0 = "\<lparr>geom = ?g0, potentialCaps = [], connected = {}, lastValidDir = None\<rparr>"
  have "edgesInRange (geom ?st0)" using assms by (simp add: edgesInRange_def)
  then obtain st where "edgesLoop (length (edges ?g0)) 0 ?st0 = Inr st"
    using edgesLoop_total [of ?st0 "length (edges ?g0)" 0] by auto
  then show ?thesis
    by (simp add: edgesToVertices_def Let_def)
qed

subsection \<open>Colors when there are no stroke colors\<close>

lemma pushTimes_zero: "pushTimes n [0, 0, 0, 0] = replicate (4 * n) (0::real)"
proof (induction n)
  case 0
  then show ?case by (simp add: pushTimes_def)
next
  case (Suc n)
  have "replicate (4 + 4 * n) (0::real) = replicate 4 0 @ replicate (4 * n) 0"
    by (rule replicate_add)
  moreover have "replicate 4 (0::real) = [0, 0, 0, 0]"
    by (simp add: numeral_eq_Suc)
  ultimately show ?case
    using Suc by (simp add: pushTimes_def)
qed

lemma strokeColor_empty: "vertexStrokeColors g = [] \<Longrightarrow> strokeColor g k = [0, 0, 0, 0]"
  by (simp add: strokeColor_def)

lemma zeros_append:
  "(base @ replicate (4 * n) (0::real)) @ replicate (4 * m) 0 = base @ replicate (4 * (n + m)) 0"
  by (simp add: replicate_add distrib_left)

lemma addSegment_colorsZero:
  assumes "colorsZero base g"
  shows "colorsZero base (addSegment g p q [0, 0, 0, 0] [0, 0, 0, 0] d)"
proof -
  have "[0, 0, 0, 0] @ [0, 0, 0, 0] @ [0, 0, 0, 0] @ [0, 0, 0, 0] @ [0, 0, 0, 0] @ [0, 0, 0, 0]
          = replicate (4 * 6) (0::real)"
    by (simp add: numeral_eq_Suc)
  then have "lineVertexColors (addSegment g p q [0, 0, 0, 0] [0, 0, 0, 0] d) =
               lineVertexColors g @ replicate (4 * 6) 0"
    by (simp add: addSegment_def Let_def)
  moreover have "length (lineSides (addSegment g p q [0, 0, 0, 0] [0, 0, 0, 0] d)) =
                   length (lineSides g) + 6"
    by (simp add: addSegment_def Let_def)
  ultimately show ?thesis
    using assms unfolding colorsZero_def
    by (simp only: addSegment_fixed zeros_append)
qed

lemma addJoin_colorsZero:
  assumes "colorsZero base g"
  shows "colorsZero base (addJoin g p t t' [0, 0, 0, 0])"
proof -
  have "lineVertexColors (addJoin g p t t' [0, 0, 0, 0]) =
               lineVertexColors g @ replicate (4 * 12) 0"
    by (simp add: addJoin_def Let_def pushTimes_zero)
  moreover have "length (lineSides (addJoin g p t t' [0, 0, 0, 0])) =
                   length (lineSides g) + 12"
    by (simp add: addJoin_def Let_def)
  ultimately show ?thesis
    using assms unfolding colorsZero_def
    by (simp only: addJoin_fixed zeros_append)
qed

lemma addCap_colorsZero:
  assumes "colorsZero base g"
  shows "colorsZero base (addCap g p t [0, 0, 0, 0])"
proof -
  have "lineVertexColors (addCap g p t [0, 0, 0, 0]) =
               lineVertexColors g @ replicate (4 * 6) 0"
    by (simp add: addCap_def Let_def pushTimes_zero)
  moreover have "length (lineSides (addCap g p t [0, 0, 0, 0])) = length (lineSides g) + 6"
    by (simp add: addCap_def Let_def)
  moreover have "vertexStrokeColors (addCap g p t [0, 0, 0, 0]) = vertexStrokeColors g"
    by (simp add: addCap_def Let_def)
  ultimately show ?thesis
    using assms unfolding colorsZero_def
    by (simp only: zeros_append)
qed

lemma capsZero_set:
  "capsZero m \<Longrightarrow> cap_color c = [0, 0, 0, 0] \<Longrightarrow> capsZero (capsSet m k c)"
  by (induction m k c rule: capsSet.induct) (auto simp: capsZero_def)

lemma capsZero_delete: "capsZero m \<Longrightarrow> capsZero (capsDelete m k)"
  by (auto simp: capsZero_def capsDelete_def)

lemma capsZero_empty: "capsZero []"
  by (simp add: capsZero_def)

lemma continueLine_zero:
  assumes "colorsZero base (geom st)" and "capsZero (potentialCaps st)"
  shows "colorsZero base (geom (continueLine st v p d ok [0, 0, 0, 0]))
         \<and> capsZero (potentialCaps (continueLine st v p d ok [0, 0, 0, 0]))"
  using assms
  by (simp add: continueLine_def Let_def addJoin_colorsZero capsZero_delete
        split: option.splits)

lemma startLine_zero:
  assumes "colorsZero base (geom st)" and "capsZero (potentialCaps st)"
  shows "colorsZero base (geom (startLine st v p d ok [0, 0, 0, 0]))
         \<and> capsZero (potentialCaps (startLine st v p d ok [0, 0, 0, 0]))"
  using assms
  by (simp add: startLine_def addJoin_colorsZero capsZero_delete capsZero_set
        split: option.splits)

lemma finishLine_zero:
  assumes "colorsZero base (geom st)" and "capsZero (potentialCaps st)"
  shows "colorsZero base (geom (finishLine st v p d [0, 0, 0, 0]))
         \<and> capsZero (potentialCaps (finishLine st v p d [0, 0, 0, 0]))"
  using assms
  by (simp add: finishLine_def addJoin_colorsZero capsZero_delete capsZero_set
        split: option.splits)

lemma closePrevious_zero:
  assumes "colorsZero base (geom st)" and "capsZero (potentialCaps st)"
    and "closePrevious st pe [0, 0, 0, 0] = Inr st'"
  shows "colorsZero base (geom st') \<and> capsZero (potentialCaps st')"
  using assms
  by (auto simp: closePrevious_def addJoin_colorsZero capsZero_delete capsZero_set
        split: option.splits if_splits sum.splits)

lemma edgeStep_zero:
  assumes "colorsZero base (geom st)" and "capsZero (potentialCaps st)"
    and "edgeStep i st = Inr st'"
  shows "colorsZero base (geom st') \<and> capsZero (potentialCaps st')"
proof -
  let ?g = "geom st"
  let ?e = "edges ?g ! i"
  have z: "\<And>k. strokeColor ?g k = [0, 0, 0, 0]"
    using assms(1) by (simp add: strokeColor_empty colorsZero_def)
  from assms(3) obtain p q where p: "vertexAt ?g (fst ?e) = Inr p"
    and q: "vertexAt ?g (snd ?e) = Inr q"
    by (auto simp: edgeStep_def Let_def split: sum.splits)
  let ?dir = "vnormalize (vsub q p)"
  let ?ok = "0 < magSq ?dir"
  let ?st1 = "if ?ok then st\<lparr>geom := addSegment ?g p q [0, 0, 0, 0] [0, 0, 0, 0] ?dir\<rparr> else st"
  have st1: "colorsZero base (geom ?st1)" "capsZero (potentialCaps ?st1)"
    using assms(1,2) by (simp_all add: addSegment_colorsZero)
  let ?mid = "if 0 < i \<and> snd (edges ?g ! (i - 1)) = fst ?e
              then Inr (continueLine ?st1 (fst ?e) p ?dir ?ok [0, 0, 0, 0])
              else closePrevious (startLine ?st1 (fst ?e) p ?dir ?ok [0, 0, 0, 0])
                     (if 0 < i then Some (edges ?g ! (i - 1)) else None) [0, 0, 0, 0]"
  have "edgeStep i st =
          (case ?mid of Inl e \<Rightarrow> Inl e
           | Inr st2 \<Rightarrow>
               Inr (let st3 = (if i = length (edges ?g) - 1
                               then finishLine st2 (snd ?e) q ?dir [0, 0, 0, 0] else st2)
                    in if ?ok then st3\<lparr>lastValidDir := Some ?dir\<rparr> else st3))"
    by (simp only: edgeStep_def Let_def p q z sum.case)
  with assms(3) obtain st2 where mid: "?mid = Inr st2"
    and st': "st' = (let st3 = (if i = length (edges ?g) - 1
                               then finishLine st2 (snd ?e) q ?dir [0, 0, 0, 0] else st2)
                     in if ?ok then st3\<lparr>lastValidDir := Some ?dir\<rparr> else st3)"
    by (cases ?mid) auto
  have st2: "colorsZero base (geom st2) \<and> capsZero (potentialCaps st2)"
  proof (cases "0 < i \<and> snd (edges ?g ! (i - 1)) = fst ?e")
    case True
    with mid have "st2 = continueLine ?st1 (fst ?e) p ?dir ?ok [0, 0, 0, 0]" by simp
    then show ?thesis using continueLine_zero [OF st1] by simp
  next
    case False
    have "closePrevious (startLine ?st1 (fst ?e) p ?dir ?ok [0, 0, 0, 0])
                     (if 0 < i then Some (edges ?g ! (i - 1)) else None) [0, 0, 0, 0] = Inr st2"
      using mid by (simp only: False if_False)
    then show ?thesis
      using closePrevious_zero startLine_zero [OF st1] by blast
  qed
  then have "\<And>v. colorsZero base (geom (finishLine st2 v q ?dir [0, 0, 0, 0]))
             \<and> capsZero (potentialCaps (finishLine st2 v q ?dir [0, 0, 0, 0]))"
    using finishLine_zero by blast
  with st2 show ?thesis
    unfolding st' by (simp add: Let_def)
qed

lemma edgesLoop_zero:
  assumes "colorsZero base (geom st)" and "capsZero (potentialCaps st)"
    and "edgesLoop n i st = Inr st'"
  shows "colorsZero base (geom st') \<and> capsZero (potentialCaps st')"
  using assms
proof (induction n i st rule: edgesLoop.induct)
  case (1 n i st)
  show ?case
  proof (cases "i < n")
    case False
    with "1.prems" show ?thesis by (subst (asm) edgesLoop.simps) simp
  next
    case True
    with "1.prems"(3) obtain st1 where step: "edgeStep i st = Inr st1"
      and rest: "edgesLoop n (i + 1) st1 = Inr st'"
      by (subst (asm) edgesLoop.simps) (auto split: sum.splits)
    have "colorsZero base (geom st1) \<and> capsZero (potentialCaps st1)"
      using edgeStep_zero [OF "1.prems"(1,2) step] .
    then show ?thesis
      using "1.IH" [OF True step _ _ rest] by blast
  qed
qed

lemma capsLoop_zero:
  "colorsZero base g \<Longrightarrow> capsZero m \<Longrightarrow> colorsZero base (capsLoop g m)"
proof (induction g m rule: capsLoop.induct)
  case (1 g)
  then show ?case by simp
next
  case (2 g k c m)
  then have "cap_color c = [0, 0, 0, 0]" "capsZero m" by (simp_all add: capsZero_def)
  with 2 show ?case by (simp add: addCap_colorsZero)
qed

text \<open>
  Claim C10. With an empty \<^verbatim>\<open>vertexStrokeColors\<close> array the color taken for every
  vertex index is \<open>[0, 0, 0, 0]\<close>, not a slice of the empty array, and the
  pass appends to \<^verbatim>\<open>lineVertexColors\<close> four zeros for each stroke vertex it emits
  (segments, joins and caps; the number of emitted stroke vertices is the length of
  \<^verbatim>\<open>lineSides\<close>). On an edge list that indexes into \<^verbatim>\<open>vertices\<close> the pass returns.
\<close>

theorem empty_stroke_colors:
  assumes "vertexStrokeColors g = []"
  shows "(\<forall>k. strokeColor g k = [0, 0, 0, 0])
   \<and> (edgesInRange g \<longrightarrow> (\<exists>g'. edgesToVertices g = Inr g'))
   \<and> (\<forall>g'. edgesToVertices g = Inr g' \<longrightarrow>
         lineVertexColors g' = lineVertexColors g @ replicate (4 * length (lineSides g')) 0)"
proof (intro conjI allI impI)
  fix k show "strokeColor g k = [0, 0, 0, 0]"
    using assms by (rule strokeColor_empty)
next
  assume "edgesInRange g"
  then show "\<exists>g'. edgesToVertices g = Inr g'" by (rule edgesToVertices_total)
next
  fix g' assume res: "edgesToVertices g = Inr g'"
  let ?g0 = "g\<lparr>lineVertices := [], lineTangentsIn := [], lineTangentsOut := [],
                lineSides := []\<rparr>"
  let ?st0 = "\<lparr>geom = ?g0, potentialCaps = [], connected = {}, lastValidDir = None\<rparr>"
  from res obtain st where loop: "edgesLoop (length (edges ?g0)) 0 ?st0 = Inr st"
    and g': "g' = capsLoop (geom st) (potentialCaps st)"
    by (auto simp: edgesToVertices_def Let_def split: sum.splits)
  have "colorsZero (lineVertexColors g) (geom ?st0)" "capsZero (potentialCaps ?st0)"
    using assms by (simp_all add: colorsZero_def capsZero_empty)
  then have "colorsZero (lineVertexColors g) (geom st) \<and> capsZero (potentialCaps st)"
    using loop by (rule edgesLoop_zero)
  then have "colorsZero (lineVertexColors g) g'"
    unfolding g' by (intro capsLoop_zero) simp_all
  then show "lineVertexColors g' =
               lineVertexColors g @ replicate (4 * length (lineSides g')) 0"
    by (simp add: colorsZero_def)
qed

subsection \<open>Joins between consecutive edges\<close>

lemma continueLine_join:
  assumes "v \<notin> connected st"
  shows "v \<in> connected (continueLine st v p d ok c)
    \<and> lineSides (geom (continueLine st v p d ok c)) =
        lineSides (geom st) @
        (if ok \<and> (\<exists>lvd. lastValidDir st = Some lvd \<and> vdot d lvd < 1 - 1 / 10 ^ 8)
         then [- 1, - 3, - 2, - 1, 0, - 3, 3, 1, 2, 3, 0, 1] else [])
    \<and> lineVertices (geom (continueLine st v p d ok c)) =
        lineVertices (geom st) @
        (if ok \<and> (\<exists>lvd. lastValidDir st = Some lvd \<and> vdot d lvd < 1 - 1 / 10 ^ 8)
         then pushTimes 12 (varray p) else [])
    \<and> lineTangentsIn (geom (continueLine st v p d ok c)) =
        lineTangentsIn (geom st) @
        (if ok \<and> (\<exists>lvd. lastValidDir st = Some lvd \<and> vdot d lvd < 1 - 1 / 10 ^ 8)
         then pushTimes 12 (varray (the (lastValidDir st))) else [])
    \<and> lineTangentsOut (geom (continueLine st v p d ok c)) =
        lineTangentsOut (geom st) @
        (if ok \<and> (\<exists>lvd. lastValidDir st = Some lvd \<and> vdot d lvd < 1 - 1 / 10 ^ 8)
         then pushTimes 12 (varray d) else [])"
  using assms
  by (cases "lastValidDir st") (simp_all add: continueLine_def Let_def addJoin_def)

lemma edgeStep_continue:
  assumes "0 < i" and "edges (geom st) ! i = (v, e)"
    and "snd (edges (geom st) ! (i - 1)) = v"
    and "v < length (vertices (geom st))" and "e < length (vertices (geom st))"
  shows "edgeStep i st =
     Inr (let g = geom st;
              st1 = (if edgeDirOK g i
                     then st\<lparr>geom := addSegment g (vertices g ! v) (vertices g ! e)
                            (strokeColor g v) (strokeColor g e) (edgeDir g i)\<rparr>
                     else st);
              st2 = continueLine st1 v (vertices g ! v) (edgeDir g i) (edgeDirOK g i)
                      (strokeColor g v);
              st3 = (if i = length (edges g) - 1
                     then finishLine st2 e (vertices g ! e) (edgeDir g i) (strokeColor g e)
                     else st2)
          in if edgeDirOK g i then st3\<lparr>lastValidDir := Some (edgeDir g i)\<rparr> else st3)"
proof -
  have e: "fst (edges (geom st) ! i) = v" "snd (edges (geom st) ! i) = e"
    using assms(2) by simp_all
  show ?thesis
    unfolding edgeStep_def Let_def edgeDir_def edgeDirOK_def vertexAt_def e
    by (simp only: assms(1,3,4,5) if_True simp_thms sum.case)
qed

lemma strokeColor_addSegment:
  "strokeColor (addSegment g p q c c' d) k = strokeColor g k"
  by (simp add: strokeColor_def addSegment_fixed)

lemma strokeColor_cleared:
  "strokeColor (g\<lparr>lineVertices := xs, lineTangentsIn := ys, lineTangentsOut := zs,
                  lineSides := ss\<rparr>) k = strokeColor g k"
  by (simp add: strokeColor_def)

lemma straight_result:
  assumes "vertices g = [pA, pB, pC]" and "edges g = [(0, 1), (1, 2)]"
    and "pA \<noteq> pB" and "vnormalize (vsub pB pA) = vnormalize (vsub pC pB)"
  shows "\<exists>g'. edgesToVertices g = Inr g'
     \<and> lineSides g' = [1, 1, - 1, 1, - 1, - 1] @ [1, 1, - 1, 1, - 1, - 1]
          @ [- 1, 2, - 2, 1, 2, - 1] @ [- 1, 2, - 2, 1, 2, - 1]
     \<and> lineVertices g' =
          (varray pA @ varray pB @ varray pA @ varray pB @ varray pB @ varray pA)
          @ (varray pB @ varray pC @ varray pB @ varray pC @ varray pC @ varray pB)
          @ pushTimes 6 (varray pA) @ pushTimes 6 (varray pC)"
proof -
  let ?g0 = "g\<lparr>lineVertices := [], lineTangentsIn := [], lineTangentsOut := [],
                lineSides := []\<rparr>"
  let ?st0 = "\<lparr>geom = ?g0, potentialCaps = [], connected = {}, lastValidDir = None\<rparr>"
  let ?d = "vnormalize (vsub pB pA)"
  let ?cA = "strokeColor g 0" and ?cB = "strokeColor g 1" and ?cC = "strokeColor g 2"
  have ok: "0 < magSq ?d" using assms(3) by (simp add: dirOK_iff)
  have ok': "0 < magSq (vnormalize (vsub pC pB))" using ok assms(4) by simp
  have nojoin: "\<not> vdot ?d ?d < 1 - 1 / 10 ^ 8"
    using assms(3) by (simp add: vdot_self magSq_vnormalize vsub_eq_zero_iff)
  let ?capA = "\<lparr>cap_point = pA, cap_dir = vmult ?d (- 1), cap_color = ?cA\<rparr>"
  let ?capC = "\<lparr>cap_point = pC, cap_dir = ?d, cap_color = ?cC\<rparr>"
  let ?g1 = "addSegment ?g0 pA pB ?cA ?cB ?d"
  let ?st1 = "\<lparr>geom = ?g1, potentialCaps = [(0, ?capA)], connected = {},
               lastValidDir = Some ?d\<rparr>"
  let ?g2 = "addSegment ?g1 pB pC ?cB ?cC ?d"
  let ?st2 = "\<lparr>geom = ?g2, potentialCaps = [(0, ?capA), (2, ?capC)], connected = {1},
               lastValidDir = Some ?d\<rparr>"
  note col = strokeColor_addSegment strokeColor_cleared
  have step0: "edgeStep 0 ?st0 = Inr ?st1"
    using assms(1,2) ok
    by (simp add: edgeStep_def vertexAt_def Let_def col startLine_def closePrevious_def
          capsGet_def)
  have step1: "edgeStep (Suc 0) ?st1 = Inr ?st2"
    using assms(1,2) ok' nojoin
    by (simp add: edgeStep_def vertexAt_def Let_def col addSegment_fixed continueLine_def
          finishLine_def capsGet_def capsDelete_def assms(4) [symmetric])
  have "edgesLoop (Suc (Suc 0)) 0 ?st0 = Inr ?st2"
    using edgesLoop_step [of 0 "Suc (Suc 0)" ?st0 ?st1, OF _ step0]
      edgesLoop_step [of "Suc 0" "Suc (Suc 0)" ?st1 ?st2, OF _ step1]
    by (simp add: edgesLoop_stop)
  moreover have "length (edges ?g0) = Suc (Suc 0)"
    using assms(2) by simp
  ultimately have "edgesToVertices g = Inr (capsLoop ?g2 [(0, ?capA), (2, ?capC)])"
    by (simp add: edgesToVertices_def Let_def)
  then show ?thesis
    by (simp add: addSegment_def addCap_def Let_def)
qed

text \<open>
  Claim C1. Let edge \<open>i\<close> start at the end vertex \<open>v\<close> of edge \<open>i - 1\<close>, with \<open>v\<close>
  not yet connected. Then the step for edge \<open>i\<close> returns; after its segment (if the
  edge has a valid direction) it marks \<open>v\<close> connected, drops the potential cap at \<open>v\<close>,
  and appends a join exactly when a direction is stored, the edge's direction is valid
  and their dot product is below \<open>1 - 1e-8\<close>: twelve vertices, all at the position of
  \<open>v\<close>, with tangent-in the stored direction, tangent-out the edge's direction and side
  codes \<open>-1, -3, -2, -1, 0, -3, 3, 1, 2, 3, 0, 1\<close>. Nothing else happens to the state
  but the work on the end vertex of the last edge and the update of the stored
  direction. In particular three points on a line with matching edge directions give two
  segments and two caps and no join.
\<close>

theorem join_at_shared_vertex:
  "(0 < i \<and> i < length (edges (geom st)) \<and> edges (geom st) ! i = (v, e)
     \<and> snd (edges (geom st) ! (i - 1)) = v
     \<and> v < length (vertices (geom st)) \<and> e < length (vertices (geom st))
     \<and> v \<notin> connected st \<longrightarrow>
     (\<exists>st2.
        edgeStep i st =
          Inr (let st3 = (if i = length (edges (geom st)) - 1
                          then finishLine st2 e (vertices (geom st) ! e) (edgeDir (geom st) i)
                                 (strokeColor (geom st) e)
                          else st2)
               in if edgeDirOK (geom st) i
                  then st3\<lparr>lastValidDir := Some (edgeDir (geom st) i)\<rparr> else st3)
      \<and> connected st2 = insert v (connected st)
      \<and> potentialCaps st2 = capsDelete (potentialCaps st) v
      \<and> lineSides (geom st2) =
          lineSides (geom st)
          @ (if edgeDirOK (geom st) i then [1, 1, - 1, 1, - 1, - 1] else [])
          @ (if joinCondition st i then [- 1, - 3, - 2, - 1, 0, - 3, 3, 1, 2, 3, 0, 1] else [])
      \<and> lineVertices (geom st2) =
          lineVertices (geom st)
          @ (if edgeDirOK (geom st) i
             then varray (vertices (geom st) ! v) @ varray (vertices (geom st) ! e)
                  @ varray (vertices (geom st) ! v) @ varray (vertices (geom st) ! e)
                  @ varray (vertices (geom st) ! e) @ varray (vertices (geom st) ! v)
             else [])
          @ (if joinCondition st i then pushTimes 12 (varray (vertices (geom st) ! v)) else [])
      \<and> lineTangentsIn (geom st2) =
          lineTangentsIn (geom st)
          @ (if edgeDirOK (geom st) i then pushTimes 6 (varray (edgeDir (geom st) i)) else [])
          @ (if joinCondition st i then pushTimes 12 (varray (the (lastValidDir st))) else [])
      \<and> lineTangentsOut (geom st2) =
          lineTangentsOut (geom st)
          @ (if edgeDirOK (geom st) i then pushTimes 6 (varray (edgeDir (geom st) i)) else [])
          @ (if joinCondition st i then pushTimes 12 (varray (edgeDir (geom st) i)) else [])))
   \<and> (vertices g = [pA, pB, pC] \<and> edges g = [(0, 1), (1, 2)] \<and> pA \<noteq> pB
       \<and> vnormalize (vsub pB pA) = vnormalize (vsub pC pB) \<longrightarrow>
       (\<exists>g'. edgesToVertices g = Inr g'
          \<and> lineSides g' = [1, 1, - 1, 1, - 1, - 1] @ [1, 1, - 1, 1, - 1, - 1]
               @ [- 1, 2, - 2, 1, 2, - 1] @ [- 1, 2, - 2, 1, 2, - 1]
          \<and> lineVertices g' =
               (varray pA @ varray pB @ varray pA @ varray pB @ varray pB @ varray pA)
               @ (varray pB @ varray pC @ varray pB @ varray pC @ varray pC @ varray pB)
               @ pushTimes 6 (varray pA) @ pushTimes 6 (varray pC)))"
proof (intro conjI impI)
  assume "vertices g = [pA, pB, pC] \<and> edges g = [(0, 1), (1, 2)] \<and> pA \<noteq> pB
       \<and> vnormalize (vsub pB pA) = vnormalize (vsub pC pB)"
  then show "\<exists>g'. edgesToVertices g = Inr g'
          \<and> lineSides g' = [1, 1, - 1, 1, - 1, - 1] @ [1, 1, - 1, 1, - 1, - 1]
               @ [- 1, 2, - 2, 1, 2, - 1] @ [- 1, 2, - 2, 1, 2, - 1]
          \<and> lineVertices g' =
               (varray pA @ varray pB @ varray pA @ varray pB @ varray pB @ varray pA)
               @ (varray pB @ varray pC @ varray pB @ varray pC @ varray pC @ varray pB)
               @ pushTimes 6 (varray pA) @ pushTimes 6 (varray pC)"
    by (intro straight_result) simp_all
next
  let ?g = "geom st"
  assume h: "0 < i \<and> i < length (edges ?g) \<and> edges ?g ! i = (v, e)
     \<and> snd (edges ?g ! (i - 1)) = v
     \<and> v < length (vertices ?g) \<and> e < length (vertices ?g) \<and> v \<notin> connected st"
  let ?ok = "edgeDirOK ?g i" and ?dir = "edgeDir ?g i"
  let ?st1 = "if ?ok
              then st\<lparr>geom := addSegment ?g (vertices ?g ! v) (vertices ?g ! e)
                     (strokeColor ?g v) (strokeColor ?g e) ?dir\<rparr>
              else st"
  let ?st2 = "continueLine ?st1 v (vertices ?g ! v) ?dir ?ok (strokeColor ?g v)"
  have step: "edgeStep i st =
          Inr (let st3 = (if i = length (edges ?g) - 1
                          then finishLine ?st2 e (vertices ?g ! e) ?dir (strokeColor ?g e)
                          else ?st2)
               in if ?ok then st3\<lparr>lastValidDir := Some ?dir\<rparr> else st3)"
    using h edgeStep_continue [of i st v e] by (simp add: Let_def)
  have v1: "v \<notin> connected ?st1" using h by simp
  have lvd1: "lastValidDir ?st1 = lastValidDir st" by simp
  have jc: "(?ok \<and> (\<exists>lvd. lastValidDir st = Some lvd \<and> vdot ?dir lvd < 1 - 1 / 10 ^ 8))
              = joinCondition st i"
    by (simp add: joinCondition_def split: option.splits)
  have join: "lineSides (geom ?st2) = lineSides (geom ?st1) @
        (if joinCondition st i then [- 1, - 3, - 2, - 1, 0, - 3, 3, 1, 2, 3, 0, 1] else [])"
    "lineVertices (geom ?st2) = lineVertices (geom ?st1) @
        (if joinCondition st i then pushTimes 12 (varray (vertices ?g ! v)) else [])"
    "lineTangentsIn (geom ?st2) = lineTangentsIn (geom ?st1) @
        (if joinCondition st i then pushTimes 12 (varray (the (lastValidDir st))) else [])"
    "lineTangentsOut (geom ?st2) = lineTangentsOut (geom ?st1) @
        (if joinCondition st i then pushTimes 12 (varray ?dir) else [])"
    using continueLine_join [OF v1, of "vertices ?g ! v" ?dir ?ok "strokeColor ?g v"]
    unfolding lvd1 jc by blast+
  have conn: "connected ?st2 = insert v (connected st)"
    using h by (simp add: continueLine_def Let_def split: option.splits)
  have caps: "potentialCaps ?st2 = capsDelete (potentialCaps st) v"
    using h by (simp add: continueLine_def Let_def split: option.splits)
  have seg: "lineSides (geom ?st1) =
               lineSides ?g @ (if ?ok then [1, 1, - 1, 1, - 1, - 1] else [])"
    "lineVertices (geom ?st1) = lineVertices ?g @
       (if ?ok
        then varray (vertices ?g ! v) @ varray (vertices ?g ! e)
             @ varray (vertices ?g ! v) @ varray (vertices ?g ! e)
             @ varray (vertices ?g ! e) @ varray (vertices ?g ! v)
        else [])"
    "lineTangentsIn (geom ?st1) =
       lineTangentsIn ?g @ (if ?ok then pushTimes 6 (varray ?dir) else [])"
    "lineTangentsOut (geom ?st1) =
       lineTangentsOut ?g @ (if ?ok then pushTimes 6 (varray ?dir) else [])"
    by (simp_all add: addSegment_def Let_def)
  show "\<exists>st2.
        edgeStep i st =
          Inr (let st3 = (if i = length (edges (geom st)) - 1
                          then finishLine st2 e (vertices (geom st) ! e) (edgeDir (geom st) i)
                                 (strokeColor (geom st) e)
                          else st2)
               in if edgeDirOK (geom st) i
                  then st3\<lparr>lastValidDir := Some (edgeDir (geom st) i)\<rparr> else st3)
      \<and> connected st2 = insert v (connected st)
      \<and> potentialCaps st2 = capsDelete (potentialCaps st) v
      \<and> lineSides (geom st2) =
          lineSides (geom st)
          @ (if edgeDirOK (geom st) i then [1, 1, - 1, 1, - 1, - 1] else [])
          @ (if joinCondition st i then [- 1, - 3, - 2, - 1, 0, - 3, 3, 1, 2, 3, 0, 1] else [])
      \<and> lineVertices (geom st2) =
          lineVertices (geom st)
          @ (if edgeDirOK (geom st) i
             then varray (vertices (geom st) ! v) @ varray (vertices (geom st) ! e)
                  @ varray (vertices (geom st) ! v) @ varray (vertices (geom st) ! e)
                  @ varray (vertices (geom st) ! e) @ varray (vertices (geom st) ! v)
             else [])
          @ (if joinCondition st i then pushTimes 12 (varray (vertices (geom st) ! v)) else [])
      \<and> lineTangentsIn (geom st2) =
          lineTangentsIn (geom st)
          @ (if edgeDirOK (geom st) i then pushTimes 6 (varray (edgeDir (geom st) i)) else [])
          @ (if joinCondition st i then pushTimes 12 (varray (the (lastValidDir st))) else [])
      \<and> lineTangentsOut (geom st2) =
          lineTangentsOut (geom st)
          @ (if edgeDirOK (geom st) i then pushTimes 6 (varray (edgeDir (geom st) i)) else [])
          @ (if joinCondition st i then pushTimes 12 (varray (edgeDir (geom st) i)) else [])"
    apply (rule exI [of _ ?st2])
    apply (intro conjI)
          apply (rule step)
         apply (rule conn)
        apply (rule caps)
       apply (simp only: join seg append_assoc)
      apply (simp only: join seg append_assoc)
     apply (simp only: join seg append_assoc)
    apply (simp only: join seg append_assoc)
    done
qed

lemma pushTimes_12:
  "pushTimes 12 [x, y, z] =
     [x, y, z, x, y, z, x, y, z, x, y, z, x, y, z, x, y, z,
      x, y, z, x, y, z, x, y, z, x, y, z, x, y, z, x, y, z]"
  by (simp add: pushTimes_def numeral_eq_Suc)

lemma pushTimes_6:
  "pushTimes 6 [x, y, z] = [x, y, z, x, y, z, x, y, z, x, y, z, x, y, z, x, y, z]"
  by (simp add: pushTimes_def numeral_eq_Suc)

lemma rightAngle_first_step:
  "edgeStep 0 (strokeInit rightAngle) =
     Inr \<lparr>geom = addSegment (geom (strokeInit rightAngle)) (Vec 0 0 0) (Vec 1 0 0)
                   [0, 0, 0, 0] [0, 0, 0, 0] (Vec 1 0 0),
          potentialCaps = [(0, \<lparr>cap_point = Vec 0 0 0, cap_dir = Vec (- 1) 0 0,
                                cap_color = [0, 0, 0, 0]\<rparr>)],
          connected = {}, lastValidDir = Some (Vec 1 0 0)\<rparr>"
  by (simp add: edgeStep_def strokeInit_def rightAngle_def polyline_def vertexAt_def
        strokeColor_def Let_def vnormalize_unit startLine_def closePrevious_def capsGet_def)

theorem join_at_shared_vertex_witness:
  "(\<exists>st1 st'. edgesLoop 1 0 (strokeInit rightAngle) = Inr st1
      \<and> snd (edges (geom st1) ! 0) = 1 \<and> edges (geom st1) ! 1 = (1, 2)
      \<and> 1 \<notin> connected st1 \<and> joinCondition st1 1
      \<and> edgeStep 1 st1 = Inr st'
      \<and> lineSides (geom st') =
           [1, 1, - 1, 1, - 1, - 1] @ [1, 1, - 1, 1, - 1, - 1]
           @ [- 1, - 3, - 2, - 1, 0, - 3, 3, 1, 2, 3, 0, 1]
      \<and> drop 36 (lineVertices (geom st')) = pushTimes 12 [1, 0, 0])
   \<and> vertices straightLine = [Vec 0 0 0, Vec 1 0 0, Vec 2 0 0]
   \<and> edges straightLine = [(0, 1), (1, 2)]
   \<and> vnormalize (vsub (Vec 1 0 0) (Vec 0 0 0)) = vnormalize (vsub (Vec 2 0 0) (Vec 1 0 0))
   \<and> (\<exists>g'. edgesToVertices straightLine = Inr g'
         \<and> lineSides g' = [1, 1, - 1, 1, - 1, - 1] @ [1, 1, - 1, 1, - 1, - 1]
               @ [- 1, 2, - 2, 1, 2, - 1] @ [- 1, 2, - 2, 1, 2, - 1])"
proof -
  let ?st0 = "strokeInit rightAngle"
  let ?capA = "\<lparr>cap_point = Vec 0 0 0, cap_dir = Vec (- 1) 0 0, cap_color = [0, 0, 0, 0]\<rparr>"
  let ?st1 = "\<lparr>geom = addSegment (geom ?st0) (Vec 0 0 0) (Vec 1 0 0) [0, 0, 0, 0] [0, 0, 0, 0]
                        (Vec 1 0 0),
               potentialCaps = [(0, ?capA)], connected = {}, lastValidDir = Some (Vec 1 0 0)\<rparr>"
  have es: "edges rightAngle = [(0, 1), (1, 2)]"
    "vertices rightAngle = [Vec 0 0 0, Vec 1 0 0, Vec 1 1 0]"
    "vertexStrokeColors rightAngle = []"
    by (simp_all add: rightAngle_def polyline_def)
  note fixed = addSegment_fixed strokeInit_fixed
  have loop1: "edgesLoop 1 0 ?st0 = Inr ?st1"
    using edgesLoop_step [of 0 1 ?st0 ?st1] rightAngle_first_step
    by (simp add: edgesLoop_stop)
  let ?g1 = "addSegment (geom ?st0) (Vec 0 0 0) (Vec 1 0 0) [0, 0, 0, 0] [0, 0, 0, 0] (Vec 1 0 0)"
  have g1: "edges ?g1 = [(0, 1), (1, 2)]"
    "vertices ?g1 = [Vec 0 0 0, Vec 1 0 0, Vec 1 1 0]"
    by (simp_all add: fixed es)
  have dir: "edgeDir ?g1 (Suc 0) = Vec 0 1 0" "edgeDirOK ?g1 (Suc 0)"
    by (simp_all add: edgeDir_def edgeDirOK_def fixed es vnormalize_unit)
  have jc: "joinCondition ?st1 1"
    by (simp add: joinCondition_def dir)
  have hyp: "0 < (1::nat) \<and> 1 < length (edges (geom ?st1)) \<and> edges (geom ?st1) ! 1 = (1, 2)
     \<and> snd (edges (geom ?st1) ! (1 - 1)) = 1
     \<and> 1 < length (vertices (geom ?st1)) \<and> 2 < length (vertices (geom ?st1))
     \<and> 1 \<notin> connected ?st1"
    by (simp add: g1)
  from join_at_shared_vertex [of 1 ?st1 1 2, THEN conjunct1, rule_format, OF hyp]
  obtain st2 where
    step: "edgeStep 1 ?st1 =
          Inr (let st3 = (if 1 = length (edges (geom ?st1)) - 1
                          then finishLine st2 2 (vertices (geom ?st1) ! 2) (edgeDir (geom ?st1) 1)
                                 (strokeColor (geom ?st1) 2)
                          else st2)
               in if edgeDirOK (geom ?st1) 1
                  then st3\<lparr>lastValidDir := Some (edgeDir (geom ?st1) 1)\<rparr> else st3)"
    and conn: "connected st2 = insert 1 (connected ?st1)"
    and caps: "potentialCaps st2 = capsDelete (potentialCaps ?st1) 1"
    and sides: "lineSides (geom st2) =
          lineSides (geom ?st1)
          @ (if edgeDirOK (geom ?st1) 1 then [1, 1, - 1, 1, - 1, - 1] else [])
          @ (if joinCondition ?st1 1 then [- 1, - 3, - 2, - 1, 0, - 3, 3, 1, 2, 3, 0, 1] else [])"
    and verts: "lineVertices (geom st2) =
          lineVertices (geom ?st1)
          @ (if edgeDirOK (geom ?st1) 1
             then varray (vertices (geom ?st1) ! 1) @ varray (vertices (geom ?st1) ! 2)
                  @ varray (vertices (geom ?st1) ! 1) @ varray (vertices (geom ?st1) ! 2)
                  @ varray (vertices (geom ?st1) ! 2) @ varray (vertices (geom ?st1) ! 1)
             else [])
          @ (if joinCondition ?st1 1 then pushTimes 12 (varray (vertices (geom ?st1) ! 1)) else [])"
    by blast
  let ?st' = "(finishLine st2 2 (Vec 1 1 0) (Vec 0 1 0) [0, 0, 0, 0])\<lparr>lastValidDir := Some (Vec 0 1 0)\<rparr>"
  have col: "strokeColor ?g1 2 = [0, 0, 0, 0]"
    by (simp add: strokeColor_def fixed es)
  have step': "edgeStep 1 ?st1 = Inr ?st'"
    unfolding step by (simp add: Let_def g1 dir col)
  have fin: "geom (finishLine st2 2 (Vec 1 1 0) (Vec 0 1 0) [0, 0, 0, 0]) = geom st2"
    by (simp add: finishLine_def conn caps capsGet_def capsDelete_def)
  have s': "lineSides (geom ?st') =
           [1, 1, - 1, 1, - 1, - 1] @ [1, 1, - 1, 1, - 1, - 1]
           @ [- 1, - 3, - 2, - 1, 0, - 3, 3, 1, 2, 3, 0, 1]"
    using sides jc dir(2) by (simp add: fin es addSegment_def Let_def strokeInit_def)
  have "lineVertices (geom ?st') =
          [0, 0, 0, 1, 0, 0, 0, 0, 0, 1, 0, 0, 1, 0, 0, 0, 0, 0]
          @ [1, 0, 0, 1, 1, 0, 1, 0, 0, 1, 1, 0, 1, 1, 0, 1, 0, 0]
          @ pushTimes 12 [1, 0, 0]"
    using verts jc dir(2) by (simp add: fin es addSegment_def Let_def strokeInit_def)
  then have v': "drop 36 (lineVertices (geom ?st')) = pushTimes 12 [1, 0, 0]"
    by simp
  have first: "\<exists>st1 st'. edgesLoop 1 0 (strokeInit rightAngle) = Inr st1
      \<and> snd (edges (geom st1) ! 0) = 1 \<and> edges (geom st1) ! 1 = (1, 2)
      \<and> 1 \<notin> connected st1 \<and> joinCondition st1 1
      \<and> edgeStep 1 st1 = Inr st'
      \<and> lineSides (geom st') =
           [1, 1, - 1, 1, - 1, - 1] @ [1, 1, - 1, 1, - 1, - 1]
           @ [- 1, - 3, - 2, - 1, 0, - 3, 3, 1, 2, 3, 0, 1]
      \<and> drop 36 (lineVertices (geom st')) = pushTimes 12 [1, 0, 0]"
    apply (rule exI [of _ ?st1])
    apply (rule exI [of _ ?st'])
    apply (intro conjI)
           apply (rule loop1)
          apply (simp add: g1)
         apply (simp add: g1)
        apply simp
       apply (rule jc)
      apply (rule step')
     apply (rule s')
    apply (rule v')
    done
  have sl: "vertices straightLine = [Vec 0 0 0, Vec 1 0 0, Vec 2 0 0]"
    "edges straightLine = [(0, 1), (1, 2)]"
    by (simp_all add: straightLine_def polyline_def)
  have same: "vnormalize (vsub (Vec 1 0 0) (Vec 0 0 0)) = vnormalize (vsub (Vec 2 0 0) (Vec 1 0 0))"
    by simp
  have hyp2: "vertices straightLine = [Vec 0 0 0, Vec 1 0 0, Vec 2 0 0]
       \<and> edges straightLine = [(0, 1), (1, 2)] \<and> Vec 0 0 0 \<noteq> Vec 1 0 0
       \<and> vnormalize (vsub (Vec 1 0 0) (Vec 0 0 0)) = vnormalize (vsub (Vec 2 0 0) (Vec 1 0 0))"
    using sl same by simp
  from join_at_shared_vertex [where g = straightLine and pA = "Vec 0 0 0" and pB = "Vec 1 0 0"
      and pC = "Vec 2 0 0", THEN conjunct2, rule_format, OF hyp2]
  have second: "\<exists>g'. edgesToVertices straightLine = Inr g'
         \<and> lineSides g' = [1, 1, - 1, 1, - 1, - 1] @ [1, 1, - 1, 1, - 1, - 1]
               @ [- 1, 2, - 2, 1, 2, - 1] @ [- 1, 2, - 2, 1, 2, - 1]"
    by blast
  show ?thesis
    using first sl same second by blast
qed

lemma rightAngle_result:
  "\<exists>g'. edgesToVertices rightAngle = Inr g'
     \<and> lineSides g' =
          [1, 1, - 1, 1, - 1, - 1] @ [1, 1, - 1, 1, - 1, - 1]
          @ [- 1, - 3, - 2, - 1, 0, - 3, 3, 1, 2, 3, 0, 1]
          @ [- 1, 2, - 2, 1, 2, - 1] @ [- 1, 2, - 2, 1, 2, - 1]"
proof -
  let ?z = "[0, 0, 0, 0] :: real list"
  let ?st0 = "strokeInit rightAngle"
  let ?capA = "\<lparr>cap_point = Vec 0 0 0, cap_dir = Vec (- 1) 0 0, cap_color = ?z\<rparr>"
  let ?capC = "\<lparr>cap_point = Vec 1 1 0, cap_dir = Vec 0 1 0, cap_color = ?z\<rparr>"
  let ?g1 = "addSegment (geom ?st0) (Vec 0 0 0) (Vec 1 0 0) ?z ?z (Vec 1 0 0)"
  let ?st1 = "\<lparr>geom = ?g1, potentialCaps = [(0, ?capA)], connected = {},
               lastValidDir = Some (Vec 1 0 0)\<rparr>"
  let ?g2 = "addJoin (addSegment ?g1 (Vec 1 0 0) (Vec 1 1 0) ?z ?z (Vec 0 1 0))
               (Vec 1 0 0) (Vec 1 0 0) (Vec 0 1 0) ?z"
  let ?st2 = "\<lparr>geom = ?g2, potentialCaps = [(0, ?capA), (2, ?capC)], connected = {1},
               lastValidDir = Some (Vec 0 1 0)\<rparr>"
  have es: "edges rightAngle = [(0, 1), (1, 2)]"
    "vertices rightAngle = [Vec 0 0 0, Vec 1 0 0, Vec 1 1 0]"
    "vertexStrokeColors rightAngle = []"
    by (simp_all add: rightAngle_def polyline_def)
  have step1: "edgeStep (Suc 0) ?st1 = Inr ?st2"
    by (simp add: edgeStep_def vertexAt_def Let_def addSegment_fixed strokeInit_fixed es
          strokeColor_def vnormalize_unit continueLine_def finishLine_def capsGet_def
          capsDelete_def)
  have "edgesLoop (Suc (Suc 0)) 0 ?st0 = Inr ?st2"
    using edgesLoop_step [of 0 "Suc (Suc 0)" ?st0 ?st1, OF _ rightAngle_first_step]
      edgesLoop_step [of "Suc 0" "Suc (Suc 0)" ?st1 ?st2, OF _ step1]
    by (simp add: edgesLoop_stop)
  moreover have "length (edges rightAngle) = Suc (Suc 0)"
    by (simp add: es)
  ultimately have "edgesToVertices rightAngle = Inr (capsLoop ?g2 [(0, ?capA), (2, ?capC)])"
    by (simp add: edgesToVertices_def Let_def strokeInit_def)
  then show ?thesis
    by (simp add: addSegment_def addJoin_def addCap_def Let_def strokeInit_def)
qed

theorem empty_stroke_colors_witness:
  "vertexStrokeColors rightAngle = [] \<and> edgesInRange rightAngle
   \<and> strokeColor rightAngle 1 = [0, 0, 0, 0]
   \<and> lineVertexColors rightAngle = []
   \<and> (\<exists>g'. edgesToVertices rightAngle = Inr g'
         \<and> length (lineSides g') = 36
         \<and> lineVertexColors g' = replicate 144 0)"
proof -
  have empty: "vertexStrokeColors rightAngle = []" "lineVertexColors rightAngle = []"
    by (simp_all add: rightAngle_def polyline_def)
  have rng: "edgesInRange rightAngle"
    by (simp add: edgesInRange_def rightAngle_def polyline_def)
  note colors = empty_stroke_colors [OF empty(1)]
  obtain g' where res: "edgesToVertices rightAngle = Inr g'"
    and n: "length (lineSides g') = 36"
    using rightAngle_result by auto
  have "lineVertexColors g' =
          lineVertexColors rightAngle @ replicate (4 * length (lineSides g')) 0"
    using colors res by blast
  then have "lineVertexColors g' = replicate 144 0"
    by (simp add: empty n)
  moreover have "strokeColor rightAngle 1 = [0, 0, 0, 0]"
    using colors by blast
  ultimately show ?thesis
    using empty rng res n by blast
qed

end
